theory Spec2Isabelle
  imports Main
begin

section \<open>Strings\<close>

text \<open>
  JavaScript strings are modelled as \<open>string\<close> (a list of characters). The operations
  below are the \<open>String.prototype\<close> and \<open>Array.prototype\<close> methods that
  \<^verbatim>\<open>src/index.js\<close> calls; each keeps the method's name. Characters outside Latin-1
  are outside the model, so the white space of \<open>trim\<close> and of the regular expression
  class \<open>\s\<close> is TAB, LF, VT, FF, CR, SPACE and NBSP.
\<close>

fun startsWith :: "string \<Rightarrow> string \<Rightarrow> bool" where
  "startsWith s [] = True"
| "startsWith [] (p # ps) = False"
| "startsWith (c # s) (p # ps) = (c = p \<and> startsWith s ps)"

fun indexOf :: "string \<Rightarrow> string \<Rightarrow> nat option" where
  "indexOf [] t = (if t = [] then Some 0 else None)"
| "indexOf (c # s) t =
     (if startsWith (c # s) t then Some 0 else map_option Suc (indexOf s t))"

definition js_includes :: "string \<Rightarrow> string \<Rightarrow> bool" where
  "js_includes s t = (indexOf s t \<noteq> None)"

fun js_split :: "char \<Rightarrow> string \<Rightarrow> string list" where
  "js_split sep [] = [[]]"
| "js_split sep (c # s) =
     (if c = sep then [] # js_split sep s
      else (case js_split sep s of
              [] \<Rightarrow> [[c]]
            | x # xs \<Rightarrow> (c # x) # xs))"

fun js_join :: "string \<Rightarrow> string list \<Rightarrow> string" where
  "js_join sep [] = []"
| "js_join sep [x] = x"
| "js_join sep (x # y # ys) = x @ sep @ js_join sep (y # ys)"

definition isWhiteSpace :: "char \<Rightarrow> bool" where
  "isWhiteSpace c =
     (c = CHR 0x09 \<or> c = CHR 0x0A \<or> c = CHR 0x0B \<or> c = CHR 0x0C \<or> c = CHR 0x0D
      \<or> c = CHR 0x20 \<or> c = CHR 0xA0)"

definition trimStart :: "string \<Rightarrow> string" where
  "trimStart s = dropWhile isWhiteSpace s"

definition trimEnd :: "string \<Rightarrow> string" where
  "trimEnd s = rev (dropWhile isWhiteSpace (rev s))"

definition trim :: "string \<Rightarrow> string" where
  "trim s = trimEnd (trimStart s)"

text \<open>\<^verbatim>\<open>s.match(/^\s*/)?.[0] || ''\<close>: the leading white space of \<open>s\<close>.\<close>

definition leadingWhitespace :: "string \<Rightarrow> string" where
  "leadingWhitespace s = takeWhile isWhiteSpace s"

section \<open>Paths (the POSIX flavour of Node's \<open>path\<close> module)\<close>

text \<open>
  \<open>normalizeString\<close> of Node's \<open>path\<close>: the segments of a path with empty and
  \<open>.\<close> segments dropped and \<open>..\<close> resolved; \<open>allowAboveRoot\<close> keeps a leading
  \<open>..\<close> of a relative path.
\<close>

definition normalizeStep :: "bool \<Rightarrow> string list \<Rightarrow> string \<Rightarrow> string list" where
  "normalizeStep allowAboveRoot res seg =
     (if seg = [] \<or> seg = ''.'' then res
      else if seg = ''..'' then
        (if res \<noteq> [] \<and> last res \<noteq> ''..'' then butlast res
         else if allowAboveRoot then res @ [''..''] else res)
      else res @ [seg])"

definition normalizeString :: "string \<Rightarrow> bool \<Rightarrow> string" where
  "normalizeString p allowAboveRoot =
     js_join ''/'' (foldl (normalizeStep allowAboveRoot) [] (js_split CHR ''/'' p))"

definition path_isAbsolute :: "string \<Rightarrow> bool" where
  "path_isAbsolute p = (p \<noteq> [] \<and> hd p = CHR ''/'')"

definition path_normalize :: "string \<Rightarrow> string" where
  "path_normalize p =
     (if p = [] then ''.''
      else
        (let isAbsolute = (hd p = CHR ''/'');
             trailingSeparator = (last p = CHR ''/'');
             q = normalizeString p (\<not> isAbsolute)
         in if q = [] then (if isAbsolute then ''/'' else if trailingSeparator then ''./'' else ''.'')
            else (if isAbsolute then ''/'' else []) @ q @ (if trailingSeparator then ''/'' else [])))"

text \<open>
  \<open>path.resolve(...paths)\<close>: the arguments are taken from the right until an absolute
  one is found; empty arguments are skipped; the working directory is used when no
  argument is absolute.
\<close>

fun resolveArgs :: "string list \<Rightarrow> string \<Rightarrow> string" where
  "resolveArgs [] resolvedPath = resolvedPath"
| "resolveArgs (p # ps) resolvedPath =
     (if path_isAbsolute resolvedPath then resolvedPath
      else if p = [] then resolveArgs ps resolvedPath
      else resolveArgs ps (p @ ''/'' @ resolvedPath))"

definition path_resolve :: "string \<Rightarrow> string list \<Rightarrow> string" where
  "path_resolve cwd paths =
     (let resolvedPath = resolveArgs (rev paths @ [cwd]) [];
          resolvedAbsolute = path_isAbsolute resolvedPath;
          q = normalizeString resolvedPath (\<not> resolvedAbsolute)
      in if resolvedAbsolute then ''/'' @ q
         else if q = [] then ''.'' else q)"

definition path_join :: "string list \<Rightarrow> string" where
  "path_join paths =
     (let joined = js_join ''/'' (filter (\<lambda>p. p \<noteq> []) paths)
      in if joined = [] then ''.'' else path_normalize joined)"

text \<open>
  \<open>path.dirname\<close>: trailing separators and the last segment are cut off; the scan runs
  over the characters from the last down to index 1, as the loop of Node does.
\<close>

definition path_dirname :: "string \<Rightarrow> string" where
  "path_dirname p =
     (if p = [] then ''.''
      else
        (let hasRoot = (hd p = CHR ''/'');
             r1 = dropWhile (\<lambda>c. c = CHR ''/'') (rev (tl p));
             r2 = dropWhile (\<lambda>c. c \<noteq> CHR ''/'') r1
         in case r2 of
              [] \<Rightarrow> (if hasRoot then ''/'' else ''.'')
            | _ # r3 \<Rightarrow> (if hasRoot \<and> r3 = [] then ''//'' else hd p # rev r3)))"

definition path_basename :: "string \<Rightarrow> string" where
  "path_basename p =
     rev (takeWhile (\<lambda>c. c \<noteq> CHR ''/'') (dropWhile (\<lambda>c. c = CHR ''/'') (rev p)))"

text \<open>
  \<open>path.relative(from, to)\<close> on resolved paths: the common leading segments are
  dropped, every remaining segment of \<open>from\<close> becomes \<open>..\<close>.
\<close>

definition pathSegments :: "string \<Rightarrow> string list" where
  "pathSegments p = filter (\<lambda>s. s \<noteq> []) (js_split CHR ''/'' p)"

fun dropCommon :: "string list \<Rightarrow> string list \<Rightarrow> string list \<times> string list" where
  "dropCommon (x # xs) (y # ys) = (if x = y then dropCommon xs ys else (x # xs, y # ys))"
| "dropCommon xs ys = (xs, ys)"

definition path_relative :: "string \<Rightarrow> string \<Rightarrow> string \<Rightarrow> string" where
  "path_relative cwd from to =
     (case dropCommon (pathSegments (path_resolve cwd [from])) (pathSegments (path_resolve cwd [to])) of
        (fs, ts) \<Rightarrow> js_join ''/'' (map (\<lambda>_. ''..'') fs @ ts))"

section \<open>The file system\<close>

text \<open>
  The state of the operating system that the server reads and changes: the home and
  working directories and the file tree, an association list from absolute paths to
  nodes. A symbolic link holds its target, an absolute path without \<open>.\<close> and \<open>..\<close>
  segments. The root directory always exists. Permissions and I/O failures other than a missing or ill-typed node are not
  part of the model.
\<close>

datatype node = File string | Dir | Symlink string

record world =
  homedir :: string
  cwd :: string
  nodes :: "(string \<times> node) list"

definition nodeAt :: "world \<Rightarrow> string \<Rightarrow> node option" where
  "nodeAt w p = (if p = ''/'' then Some Dir else map_of (nodes w) p)"

definition fromSegments :: "string list \<Rightarrow> string" where
  "fromSegments segs = ''/'' @ js_join ''/'' segs"

definition childPath :: "string \<Rightarrow> string \<Rightarrow> string" where
  "childPath d b = (if d = ''/'' then d @ b else d @ ''/'' @ b)"

text \<open>
  Path resolution as the kernel does it: segment by segment from the root, following
  symbolic links, at most 40 of them (the limit after which Linux reports \<open>ELOOP\<close>).
  With \<open>missingOk\<close> the last segment may be absent (the path of a file about to be
  created).
\<close>

fun realpathLoop :: "world \<Rightarrow> bool \<Rightarrow> nat \<Rightarrow> string list \<Rightarrow> string list \<Rightarrow> string option" where
  "realpathLoop w missingOk fuel cur [] = Some (fromSegments cur)"
| "realpathLoop w missingOk fuel cur (s # rest) =
     (case nodeAt w (fromSegments (cur @ [s])) of
        None \<Rightarrow> (if missingOk \<and> rest = [] then Some (fromSegments (cur @ [s])) else None)
      | Some Dir \<Rightarrow> realpathLoop w missingOk fuel (cur @ [s]) rest
      | Some (File c) \<Rightarrow> (if rest = [] then Some (fromSegments (cur @ [s])) else None)
      | Some (Symlink t) \<Rightarrow>
          (case fuel of
             0 \<Rightarrow> None
           | Suc k \<Rightarrow> realpathLoop w missingOk k [] (pathSegments t @ rest)))"

text \<open>\<open>fs.realpath\<close>; \<open>None\<close> when it throws.\<close>

definition fs_realpath :: "world \<Rightarrow> string \<Rightarrow> string option" where
  "fs_realpath w p = realpathLoop w False 40 [] (pathSegments (path_resolve (cwd w) [p]))"

section \<open>Errors\<close>

text \<open>
  Every \<open>throw new Error(...)\<close> of the source is a constructor; its argument is the text
  the message interpolates. \<open>OSError\<close> carries the message of an error thrown by \<open>fs\<close>.
  \<^item> \<open>AccessDenied absolute allowedDirectories\<close>:
    \<^verbatim>\<open>Access denied - path outside allowed directories: ... not in ...\<close>
  \<^item> \<open>ParentUnreachable parentDir\<close>: \<^verbatim>\<open>Parent directory does not exist: ...\<close>
  \<^item> \<open>AlreadyExists destination\<close>: \<^verbatim>\<open>Destination already exists: ...\<close>
  \<^item> \<open>EditNotFound oldText\<close>: \<^verbatim>\<open>Could not find exact match for edit:\n...\<close>
\<close>

datatype error =
    AccessDenied string "string list"
  | ParentUnreachable string
  | AlreadyExists string
  | EditNotFound string
  | OSError string

section \<open>PathSandbox: \<open>validatePath\<close>\<close>

text \<open>
  \<open>normalizePath\<close>, \<open>expandHome\<close> and \<open>validatePath\<close> of \<^verbatim>\<open>src/index.js\<close> (lines
  21-29 and 49-86). The list \<open>allowedDirectories\<close>, computed once at start-up, is an
  argument.
\<close>

definition normalizePath :: "string \<Rightarrow> string" where
  "normalizePath p = path_normalize p"

definition expandHome :: "world \<Rightarrow> string \<Rightarrow> string" where
  "expandHome w filepath =
     (if startsWith filepath ''~/'' \<or> filepath = ''~''
      then path_join [homedir w, drop 1 filepath]
      else filepath)"

text \<open>\<open>allowedDirectories.some(dir => p.startsWith(dir))\<close>\<close>

definition isAllowed :: "string list \<Rightarrow> string \<Rightarrow> bool" where
  "isAllowed allowedDirectories p = list_ex (\<lambda>dir. startsWith p dir) allowedDirectories"

definition absolutePath :: "world \<Rightarrow> string \<Rightarrow> string" where
  "absolutePath w requestedPath =
     (let expandedPath = expandHome w requestedPath
      in if path_isAbsolute expandedPath
         then path_resolve (cwd w) [expandedPath]
         else path_resolve (cwd w) [cwd w, expandedPath])"

text \<open>
  The \<open>try\<close> block of \<open>validatePath\<close>: \<open>Some realPath\<close> when it returns, \<open>None\<close> when
  control passes to the \<open>catch\<close> block, which happens when \<open>fs.realpath\<close> throws and
  also when the block itself throws its "symlink target outside allowed directories"
  error.
\<close>

definition tryRealPath :: "string list \<Rightarrow> world \<Rightarrow> string \<Rightarrow> string option" where
  "tryRealPath allowedDirectories w absolute =
     (case fs_realpath w absolute of
        None \<Rightarrow> None
      | Some realPath \<Rightarrow>
          (if \<not> isAllowed allowedDirectories (normalizePath realPath) then None
           else Some realPath))"

text \<open>
  The \<open>catch\<close> block: the parent directory is resolved; the inner \<open>catch\<close> turns both a
  failing \<open>fs.realpath\<close> and the "parent directory outside allowed directories" error
  into \<open>ParentUnreachable\<close>.
\<close>

definition checkParent :: "string list \<Rightarrow> world \<Rightarrow> string \<Rightarrow> error + string" where
  "checkParent allowedDirectories w absolute =
     (let parentDir = path_dirname absolute
      in case fs_realpath w parentDir of
           None \<Rightarrow> Inl (ParentUnreachable parentDir)
         | Some realParentPath \<Rightarrow>
             (if \<not> isAllowed allowedDirectories (normalizePath realParentPath)
              then Inl (ParentUnreachable parentDir)
              else Inr absolute))"

definition validatePath :: "string list \<Rightarrow> world \<Rightarrow> string \<Rightarrow> error + string" where
  "validatePath allowedDirectories w requestedPath =
     (let absolute = absolutePath w requestedPath;
          normalizedRequested = normalizePath absolute
      in if \<not> isAllowed allowedDirectories normalizedRequested
         then Inl (AccessDenied absolute allowedDirectories)
         else (case tryRealPath allowedDirectories w absolute of
                 Some realPath \<Rightarrow> Inr realPath
               | None \<Rightarrow> checkParent allowedDirectories w absolute))"

text \<open>\<open>error.message\<close>\<close>

fun errorMessage :: "error \<Rightarrow> string" where
  "errorMessage (AccessDenied absolute allowedDirectories) =
     ''Access denied - path outside allowed directories: '' @ absolute @ '' not in ''
       @ js_join '', '' allowedDirectories"
| "errorMessage (ParentUnreachable parentDir) = ''Parent directory does not exist: '' @ parentDir"
| "errorMessage (AlreadyExists destination) = ''Destination already exists: '' @ destination"
| "errorMessage (EditNotFound oldText) = ''Could not find exact match for edit:'' @ [CHR 0x0A] @ oldText"
| "errorMessage (OSError m) = m"

section \<open>The calls of Node's \<open>fs\<close> that the handlers make\<close>

definition enoent :: "string \<Rightarrow> string \<Rightarrow> error" where
  "enoent syscall p =
     OSError (''ENOENT: no such file or directory, '' @ syscall @ '' '' @ [CHR 0x27] @ p @ [CHR 0x27])"

definition eisdir :: "string \<Rightarrow> error" where
  "eisdir syscall = OSError (''EISDIR: illegal operation on a directory, '' @ syscall)"

definition setNode :: "world \<Rightarrow> string \<Rightarrow> node \<Rightarrow> world" where
  "setNode w p n = w\<lparr>nodes := (p, n) # filter (\<lambda>e. fst e \<noteq> p) (nodes w)\<rparr>"

definition isUnder :: "string \<Rightarrow> string \<Rightarrow> bool" where
  "isUnder d q = startsWith q (d @ ''/'')"

text \<open>Where a path's last segment lives once its directory is resolved; the last segment may be absent.\<close>

definition resolveForCreate :: "world \<Rightarrow> string \<Rightarrow> string option" where
  "resolveForCreate w p = realpathLoop w True 40 [] (pathSegments (path_resolve (cwd w) [p]))"

text \<open>The directory entry a path names: its directory resolved, its last segment not followed.\<close>

definition resolveEntry :: "world \<Rightarrow> string \<Rightarrow> string option" where
  "resolveEntry w p =
     (let q = path_resolve (cwd w) [p]
      in map_option (\<lambda>d. childPath d (path_basename q)) (fs_realpath w (path_dirname q)))"

definition fs_access :: "world \<Rightarrow> string \<Rightarrow> error + unit" where
  "fs_access w p =
     (case fs_realpath w p of None \<Rightarrow> Inl (enoent ''access'' p) | Some r \<Rightarrow> Inr ())"

definition fs_stat :: "world \<Rightarrow> string \<Rightarrow> error + node" where
  "fs_stat w p =
     (case fs_realpath w p of
        None \<Rightarrow> Inl (enoent ''stat'' p)
      | Some r \<Rightarrow> (case nodeAt w r of None \<Rightarrow> Inl (enoent ''stat'' p) | Some n \<Rightarrow> Inr n))"

definition fs_readFile :: "world \<Rightarrow> string \<Rightarrow> error + string" where
  "fs_readFile w p =
     (case fs_realpath w p of
        None \<Rightarrow> Inl (enoent ''open'' p)
      | Some r \<Rightarrow> (case nodeAt w r of Some (File c) \<Rightarrow> Inr c | _ \<Rightarrow> Inl (eisdir ''read'')))"

text \<open>\<open>fs.writeFile\<close> creates the file or replaces its content.\<close>

definition fs_writeFile :: "world \<Rightarrow> string \<Rightarrow> string \<Rightarrow> error + world" where
  "fs_writeFile w p c =
     (case resolveForCreate w p of
        None \<Rightarrow> Inl (enoent ''open'' p)
      | Some r \<Rightarrow> (case nodeAt w r of
                     Some Dir \<Rightarrow> Inl (eisdir ''open'')
                   | _ \<Rightarrow> Inr (setNode w r (File c))))"

text \<open>\<open>fs.copyFile\<close> replaces an existing destination (no \<open>COPYFILE_EXCL\<close> is passed).\<close>

definition fs_copyFile :: "world \<Rightarrow> string \<Rightarrow> string \<Rightarrow> error + world" where
  "fs_copyFile w src dest =
     (case fs_readFile w src of Inl e \<Rightarrow> Inl e | Inr c \<Rightarrow> fs_writeFile w dest c)"

text \<open>\<open>fs.cp\<close> with \<open>recursive: true\<close>: the tree below the source is copied below the destination.\<close>

definition fs_cp :: "world \<Rightarrow> string \<Rightarrow> string \<Rightarrow> error + world" where
  "fs_cp w src dest =
     (case (fs_realpath w src, resolveForCreate w dest) of
        (Some s, Some d) \<Rightarrow>
          (if d = s \<or> isUnder s d
           then Inl (OSError ''ERR_FS_CP_EINVAL: cannot copy a directory to a subdirectory of self'')
           else
             (let copies = map (\<lambda>e. (d @ drop (length s) (fst e), snd e))
                             (filter (\<lambda>e. fst e = s \<or> isUnder s (fst e)) (nodes w))
              in Inr (w\<lparr>nodes := copies @ filter (\<lambda>e. map_of copies (fst e) = None) (nodes w)\<rparr>)))
      | _ \<Rightarrow> Inl (enoent ''cp'' src))"

text \<open>
  \<open>fs.rename\<close> is \<open>rename(2)\<close>: an existing destination that is not a directory is
  replaced; a directory replaces only an empty directory.
\<close>

definition moveNodes :: "world \<Rightarrow> string \<Rightarrow> string \<Rightarrow> world" where
  "moveNodes w s d =
     w\<lparr>nodes :=
         map (\<lambda>e. if fst e = s then (d, snd e)
                  else if isUnder s (fst e) then (d @ drop (length s) (fst e), snd e)
                  else e)
           (filter (\<lambda>e. fst e \<noteq> d \<and> \<not> isUnder d (fst e)) (nodes w))\<rparr>"

definition fs_rename :: "world \<Rightarrow> string \<Rightarrow> string \<Rightarrow> error + world" where
  "fs_rename w oldPath newPath =
     (case (resolveEntry w oldPath, resolveEntry w newPath) of
        (Some s, Some d) \<Rightarrow>
          (case map_of (nodes w) s of
             None \<Rightarrow> Inl (enoent ''rename'' oldPath)
           | Some sn \<Rightarrow>
               (if nodeAt w (path_dirname d) \<noteq> Some Dir
                then Inl (OSError ''ENOTDIR: not a directory, rename'')
                else if s = d then Inr w
                else if sn = Dir \<and> isUnder s d
                then Inl (OSError ''EINVAL: invalid argument, rename'')
                else (case map_of (nodes w) d of
                        None \<Rightarrow> Inr (moveNodes w s d)
                      | Some Dir \<Rightarrow>
                          (if sn \<noteq> Dir then Inl (eisdir ''rename'')
                           else if list_ex (\<lambda>e. isUnder d (fst e)) (nodes w)
                           then Inl (OSError ''ENOTEMPTY: directory not empty, rename'')
                           else Inr (moveNodes w s d))
                      | Some _ \<Rightarrow>
                          (if sn = Dir then Inl (OSError ''ENOTDIR: not a directory, rename'')
                           else Inr (moveNodes w s d)))))
      | _ \<Rightarrow> Inl (enoent ''rename'' oldPath))"

section \<open>The handlers \<open>copy_file\<close> and \<open>move_file\<close>\<close>

text \<open>
  The \<open>copy_file\<close> and \<open>move_file\<close> cases of the request handler (lines 933-968 and
  1107-1118). A handler returns the error or the text of its response, and the file
  system it leaves.
\<close>

text \<open>
  The destination check of \<open>copy_file\<close>: the \<open>try\<close> block throws \<open>AlreadyExists\<close>
  when \<open>fs.access\<close> returns; the \<open>catch\<close> block rethrows whatever error it caught
  whose message includes \<open>already exists\<close> and swallows every other error.
\<close>

definition destinationCheck :: "world \<Rightarrow> string \<Rightarrow> string \<Rightarrow> error option" where
  "destinationCheck w validDestPath destination =
     (let thrown = (case fs_access w validDestPath of
                      Inr _ \<Rightarrow> AlreadyExists destination
                    | Inl e \<Rightarrow> e)
      in if js_includes (errorMessage thrown) ''already exists'' then Some thrown else None)"

definition copy_file :: "string list \<Rightarrow> world \<Rightarrow> string \<Rightarrow> string \<Rightarrow> (error + string) \<times> world" where
  "copy_file allowedDirectories w source destination =
     (case validatePath allowedDirectories w source of
        Inl e \<Rightarrow> (Inl e, w)
      | Inr validSourcePath \<Rightarrow>
     (case validatePath allowedDirectories w destination of
        Inl e \<Rightarrow> (Inl e, w)
      | Inr validDestPath \<Rightarrow>
     (case destinationCheck w validDestPath destination of
        Some e \<Rightarrow> (Inl e, w)
      | None \<Rightarrow>
     (case fs_stat w validSourcePath of
        Inl e \<Rightarrow> (Inl e, w)
      | Inr stats \<Rightarrow>
     (case (if stats = Dir then fs_cp w validSourcePath validDestPath
            else fs_copyFile w validSourcePath validDestPath) of
        Inl e \<Rightarrow> (Inl e, w)
      | Inr w' \<Rightarrow> (Inr (''Successfully copied '' @ source @ '' to '' @ destination), w'))))))"

definition move_file :: "string list \<Rightarrow> world \<Rightarrow> string \<Rightarrow> string \<Rightarrow> (error + string) \<times> world" where
  "move_file allowedDirectories w source destination =
     (case validatePath allowedDirectories w source of
        Inl e \<Rightarrow> (Inl e, w)
      | Inr validSourcePath \<Rightarrow>
     (case validatePath allowedDirectories w destination of
        Inl e \<Rightarrow> (Inl e, w)
      | Inr validDestPath \<Rightarrow>
     (case fs_rename w validSourcePath validDestPath of
        Inl e \<Rightarrow> (Inl e, w)
      | Inr w' \<Rightarrow> (Inr (''Successfully moved '' @ source @ '' to '' @ destination), w'))))"

section \<open>PatchEngine: \<open>applyFileEdits\<close>\<close>

text \<open>
  \<open>normalizeLineEndings\<close>, \<open>createUnifiedDiff\<close> and \<open>applyFileEdits\<close> (lines 254-324)
  and the \<open>edit_file\<close> case of the request handler (lines 1041-1051).
\<close>

text \<open>\<^verbatim>\<open>text.replace(/\r\n/g, '\n')\<close>: every CR LF pair, scanning from the left, becomes LF.\<close>

fun normalizeLineEndings :: "string \<Rightarrow> string" where
  "normalizeLineEndings (c # d # r) =
     (if c = CHR 0x0D \<and> d = CHR 0x0A then CHR 0x0A # normalizeLineEndings r
      else c # normalizeLineEndings (d # r))"
| "normalizeLineEndings s = s"

text \<open>
  \<open>String.prototype.replace\<close> with a string pattern and a string replacement replaces
  the first occurrence, and the replacement is a template: \<open>GetSubstitution\<close> expands
  \<open>$$\<close> to a dollar sign, \<open>$&\<close> to the matched text, \<open>$`\<close> to the text before the
  match and \<open>$'\<close> to the text after it. A string pattern has no capture groups, so
  \<open>$1\<close> ... \<open>$99\<close> and \<open>$<\<close> stay as they are.
\<close>

fun getSubstitution :: "string \<Rightarrow> string \<Rightarrow> string \<Rightarrow> string \<Rightarrow> string" where
  "getSubstitution matched preceding following (c # d # r) =
     (if c = CHR ''$'' \<and> d = CHR ''$'' then CHR ''$'' # getSubstitution matched preceding following r
      else if c = CHR ''$'' \<and> d = CHR ''&'' then matched @ getSubstitution matched preceding following r
      else if c = CHR ''$'' \<and> d = CHR 0x60 then preceding @ getSubstitution matched preceding following r
      else if c = CHR ''$'' \<and> d = CHR 0x27 then following @ getSubstitution matched preceding following r
      else c # getSubstitution matched preceding following (d # r))"
| "getSubstitution matched preceding following s = s"

definition js_replace :: "string \<Rightarrow> string \<Rightarrow> string \<Rightarrow> string" where
  "js_replace s searchValue replaceValue =
     (case indexOf s searchValue of
        None \<Rightarrow> s
      | Some i \<Rightarrow>
          (let preceding = take i s; following = drop (i + length searchValue) s
           in preceding @ getSubstitution searchValue preceding following replaceValue @ following))"

record edit =
  oldText :: string
  newText :: string

text \<open>
  The predicate of \<open>oldLines.every(...)\<close>: \<open>potentialMatch\<close> is a slice as long as
  \<open>oldLines\<close>, and each pair of lines is equal after \<open>trim\<close>.
\<close>

definition isMatch :: "string list \<Rightarrow> string list \<Rightarrow> bool" where
  "isMatch oldLines potentialMatch = list_all2 (\<lambda>oldLine contentLine. trim oldLine = trim contentLine) oldLines potentialMatch"

text \<open>
  The loop \<^verbatim>\<open>for (let i = 0; i <= contentLines.length - oldLines.length; i++)\<close>: the first
  index whose window matches. The range is empty when \<open>oldLines\<close> is the longer list.
\<close>

definition findMatch :: "string list \<Rightarrow> string list \<Rightarrow> nat option" where
  "findMatch oldLines contentLines =
     List.find (\<lambda>i. isMatch oldLines (take (length oldLines) (drop i contentLines)))
       [0 ..< length contentLines + 1 - length oldLines]"

text \<open>The callback of \<open>normalizedNew.split('\n').map((line, j) => ...)\<close>.\<close>

definition replacementLine :: "string \<Rightarrow> string list \<Rightarrow> nat \<Rightarrow> string \<Rightarrow> string" where
  "replacementLine originalIndent oldLines j line =
     (if j = 0 then originalIndent @ trimStart line
      else
        (let oldIndent = (if j < length oldLines then leadingWhitespace (oldLines ! j) else []);
             newIndent = leadingWhitespace line
         in if oldIndent \<noteq> [] \<and> newIndent \<noteq> [] then
              (let relativeIndent = int (length newIndent) - int (length oldIndent)
               in originalIndent @ replicate (nat (max 0 relativeIndent)) CHR '' '' @ trimStart line)
            else line))"

definition replacementLines :: "string \<Rightarrow> string list \<Rightarrow> string list \<Rightarrow> string list" where
  "replacementLines originalIndent oldLines newTextLines =
     map (\<lambda>(j, line). replacementLine originalIndent oldLines j line) (enumerate 0 newTextLines)"

text \<open>The line-window strategy on the current buffer; \<open>None\<close> when no window matches.\<close>

definition lineWindow :: "string \<Rightarrow> string \<Rightarrow> string \<Rightarrow> string option" where
  "lineWindow modifiedContent normalizedOld normalizedNew =
     (let oldLines = js_split CHR 0x0A normalizedOld;
          contentLines = js_split CHR 0x0A modifiedContent
      in case findMatch oldLines contentLines of
           None \<Rightarrow> None
         | Some i \<Rightarrow>
             (let originalIndent = leadingWhitespace (contentLines ! i);
                  newLines = replacementLines originalIndent oldLines (js_split CHR 0x0A normalizedNew)
              in Some (js_join [CHR 0x0A]
                         (take i contentLines @ newLines @ drop (i + length oldLines) contentLines))))"

text \<open>One turn of the loop over the edits.\<close>

definition applyEdit :: "string \<Rightarrow> edit \<Rightarrow> error + string" where
  "applyEdit modifiedContent e =
     (let normalizedOld = normalizeLineEndings (oldText e);
          normalizedNew = normalizeLineEndings (newText e)
      in if js_includes modifiedContent normalizedOld
         then Inr (js_replace modifiedContent normalizedOld normalizedNew)
         else (case lineWindow modifiedContent normalizedOld normalizedNew of
                 Some c \<Rightarrow> Inr c
               | None \<Rightarrow> Inl (EditNotFound (oldText e))))"

fun applyEdits :: "string \<Rightarrow> edit list \<Rightarrow> error + string" where
  "applyEdits modifiedContent [] = Inr modifiedContent"
| "applyEdits modifiedContent (e # es) =
     (case applyEdit modifiedContent e of
        Inl err \<Rightarrow> Inl err
      | Inr c \<Rightarrow> applyEdits c es)"

text \<open>
  The fence of the returned diff: \<^verbatim>\<open>while (diff.includes('`'.repeat(numBackticks))) numBackticks++\<close>.
  The loop ends because a string does not include a longer one.
\<close>

lemma startsWith_length: "startsWith s p \<Longrightarrow> length p \<le> length s"
  by (induction s p rule: startsWith.induct) auto

lemma indexOf_length: "indexOf s t = Some i \<Longrightarrow> i + length t \<le> length s"
proof (induction s arbitrary: i)
  case Nil
  then show ?case by (simp split: if_splits)
next
  case (Cons c s)
  show ?case
  proof (cases "startsWith (c # s) t")
    case True
    with Cons.prems startsWith_length [OF True] show ?thesis by simp
  next
    case False
    with Cons.prems obtain k where "indexOf s t = Some k" and "i = Suc k" by auto
    with Cons.IH show ?thesis by auto
  qed
qed

lemma js_includes_length: "js_includes s t \<Longrightarrow> length t \<le> length s"
  unfolding js_includes_def using indexOf_length by fastforce

function numBackticksLoop :: "string \<Rightarrow> nat \<Rightarrow> nat" where
  "numBackticksLoop diff numBackticks =
     (if js_includes diff (replicate numBackticks CHR 0x60)
      then numBackticksLoop diff (numBackticks + 1)
      else numBackticks)"
  by pat_completeness auto
termination
proof (relation "measure (\<lambda>(diff, numBackticks). length diff + 1 - numBackticks)")
  show "wf (measure (\<lambda>(diff, numBackticks). length diff + 1 - numBackticks))" by simp
next
  fix diff :: string and numBackticks :: nat
  assume "js_includes diff (replicate numBackticks CHR 0x60)"
  then have "numBackticks \<le> length diff" using js_includes_length by fastforce
  then show "((diff, numBackticks + 1), (diff, numBackticks))
      \<in> measure (\<lambda>(diff, numBackticks). length diff + 1 - numBackticks)"
    by simp
qed

declare numBackticksLoop.simps [simp del]

definition formatDiff :: "string \<Rightarrow> string" where
  "formatDiff diff =
     (let numBackticks = numBackticksLoop diff 3
      in replicate numBackticks CHR 0x60 @ ''diff'' @ [CHR 0x0A] @ diff
           @ replicate numBackticks CHR 0x60 @ [CHR 0x0A, CHR 0x0A])"

text \<open>
  \<open>createTwoFilesPatch\<close> of the \<open>diff\<close> package is a parameter of the model: its
  arguments are the two file names, the two contents and the two headers.
\<close>

type_synonym patcher = "string \<Rightarrow> string \<Rightarrow> string \<Rightarrow> string \<Rightarrow> string \<Rightarrow> string \<Rightarrow> string"

definition createUnifiedDiff :: "patcher \<Rightarrow> string \<Rightarrow> string \<Rightarrow> string \<Rightarrow> string" where
  "createUnifiedDiff createTwoFilesPatch originalContent newContent filepath =
     (let normalizedOriginal = normalizeLineEndings originalContent;
          normalizedNew = normalizeLineEndings newContent
      in createTwoFilesPatch filepath filepath normalizedOriginal normalizedNew ''original'' ''modified'')"

definition applyFileEdits ::
  "patcher \<Rightarrow> world \<Rightarrow> string \<Rightarrow> edit list \<Rightarrow> bool \<Rightarrow> (error + string) \<times> world" where
  "applyFileEdits createTwoFilesPatch w filePath edits dryRun =
     (case fs_readFile w filePath of
        Inl e \<Rightarrow> (Inl e, w)
      | Inr raw \<Rightarrow>
     (let content = normalizeLineEndings raw
      in case applyEdits content edits of
           Inl e \<Rightarrow> (Inl e, w)
         | Inr modifiedContent \<Rightarrow>
             (let diff = createUnifiedDiff createTwoFilesPatch content modifiedContent filePath;
                  formattedDiff = formatDiff diff
              in if \<not> dryRun then
                   (case fs_writeFile w filePath modifiedContent of
                      Inl e \<Rightarrow> (Inl e, w)
                    | Inr w' \<Rightarrow> (Inr formattedDiff, w'))
                 else (Inr formattedDiff, w))))"

text \<open>The handler \<open>edit_file\<close>.\<close>

definition edit_file ::
  "patcher \<Rightarrow> string list \<Rightarrow> world \<Rightarrow> string \<Rightarrow> edit list \<Rightarrow> bool \<Rightarrow> (error + string) \<times> world" where
  "edit_file createTwoFilesPatch allowedDirectories w path edits dryRun =
     (case validatePath allowedDirectories w path of
        Inl e \<Rightarrow> (Inl e, w)
      | Inr validPath \<Rightarrow> applyFileEdits createTwoFilesPatch w validPath edits dryRun)"

section \<open>HierarchyWalker: the exclusion test of \<open>searchFiles\<close>\<close>

text \<open>
  \<open>minimatch(path, pattern, { dot })\<close> of the \<open>minimatch\<close> package, for patterns made
  of literal text, \<open>*\<close>, \<open>?\<close> and \<open>**\<close>, with a leading \<open>!\<close> (negation) and a
  leading \<open>#\<close> (comment). Braces, character classes, extended globs and escapes are not
  modelled. The pattern and the path are split at runs of slashes; \<open>matchOne\<close> walks
  both lists as the package's function of that name does, with \<open>partial = false\<close>.
\<close>

definition slashSplit :: "string \<Rightarrow> string list" where
  "slashSplit s =
     (case js_split CHR ''/'' s of
        [] \<Rightarrow> []
      | [x] \<Rightarrow> [x]
      | x # xs \<Rightarrow> x # filter (\<lambda>t. t \<noteq> []) (butlast xs) @ [last xs])"

datatype globPart = GlobStar | Segment string

definition parsePart :: "string \<Rightarrow> globPart" where
  "parsePart s = (if s = ''**'' then GlobStar else Segment s)"

definition hasMagic :: "string \<Rightarrow> bool" where
  "hasMagic s = (CHR ''*'' \<in> set s \<or> CHR ''?'' \<in> set s)"

text \<open>A segment against a pattern part with \<open>*\<close> (any characters) and \<open>?\<close> (one character).\<close>

fun wild :: "string \<Rightarrow> string \<Rightarrow> bool" where
  "wild [] [] = True"
| "wild [] (c # s) = False"
| "wild (p # ps) [] = (p = CHR ''*'' \<and> wild ps [])"
| "wild (p # ps) (c # s) =
     (if p = CHR ''*'' then wild ps (c # s) \<or> wild (p # ps) s
      else (p = CHR ''?'' \<or> p = c) \<and> wild ps s)"

text \<open>
  A part without magic is compared as a string. A part with magic never matches an empty
  name, \<open>.\<close> or \<open>..\<close>, and matches a name with a leading dot only when \<open>dot\<close> is
  set or the part itself starts with a dot.
\<close>

definition segmentMatch :: "bool \<Rightarrow> string \<Rightarrow> string \<Rightarrow> bool" where
  "segmentMatch dot p f =
     (if hasMagic p
      then f \<noteq> [] \<and> f \<noteq> ''.'' \<and> f \<noteq> ''..''
           \<and> (dot \<or> hd f \<noteq> CHR ''.'' \<or> hd p = CHR ''.'') \<and> wild p f
      else f = p)"

text \<open>The names that \<open>**\<close> never swallows.\<close>

definition unswallowable :: "bool \<Rightarrow> string \<Rightarrow> bool" where
  "unswallowable dot f = (f = ''.'' \<or> f = ''..'' \<or> (\<not> dot \<and> f \<noteq> [] \<and> hd f = CHR ''.''))"

fun matchOne :: "bool \<Rightarrow> string list \<Rightarrow> globPart list \<Rightarrow> bool" where
  "matchOne dot [] [] = True"
| "matchOne dot [] (p # ps) = False"
| "matchOne dot (f # fs) [] = (fs = [] \<and> f = [])"
| "matchOne dot (f # fs) (GlobStar # ps) =
     (if ps = [] then list_all (\<lambda>g. \<not> unswallowable dot g) (f # fs)
      else matchOne dot (f # fs) ps \<or> (\<not> unswallowable dot f \<and> matchOne dot fs (GlobStar # ps)))"
| "matchOne dot (f # fs) (Segment p # ps) = (segmentMatch dot p f \<and> matchOne dot fs ps)"

definition minimatch :: "string \<Rightarrow> string \<Rightarrow> bool \<Rightarrow> bool" where
  "minimatch f pattern dot =
     (if pattern \<noteq> [] \<and> hd pattern = CHR ''#'' then False
      else
        (let bangs = takeWhile (\<lambda>c. c = CHR ''!'') pattern;
             negate = odd (length bangs);
             glob = dropWhile (\<lambda>c. c = CHR ''!'') pattern;
             hit = (if glob = [] then f = []
                    else matchOne dot (slashSplit f) (map parsePart (slashSplit glob)))
         in hit \<noteq> negate))"

text \<open>
  The body of the loop of \<open>searchFiles\<close> (lines 228-236), from the relative path to
  the \<open>shouldExclude\<close> test: the path of
  the entry relative to the root of the search is matched against every exclude
  pattern; a pattern without \<open>*\<close> is first wrapped as \<open>**/pattern/**\<close>.
\<close>

definition globPattern :: "string \<Rightarrow> string" where
  "globPattern pattern = (if js_includes pattern ''*'' then pattern else ''**/'' @ pattern @ ''/**'')"

definition shouldExclude :: "string \<Rightarrow> string list \<Rightarrow> bool" where
  "shouldExclude relativePath excludePatterns =
     list_ex (\<lambda>pattern. minimatch relativePath (globPattern pattern) True) excludePatterns"

definition entryExcluded :: "world \<Rightarrow> string \<Rightarrow> string \<Rightarrow> string list \<Rightarrow> bool" where
  "entryExcluded w rootPath fullPath excludePatterns =
     shouldExclude (path_relative (cwd w) rootPath fullPath) excludePatterns"

section \<open>Notions of the specification\<close>

text \<open>
  Segment-aware containment, as the specification words it: a path is inside a root when
  it is the root or continues it after a separator, so that \<open>/data\<close> holds
  \<open>/data/x\<close> and does not hold \<open>/data2\<close>. The source has no such function; the
  theorems compare \<open>isAllowed\<close> with it.
\<close>

definition withTrailingSlash :: "string \<Rightarrow> string" where
  "withTrailingSlash d = (if d \<noteq> [] \<and> last d = CHR ''/'' then d else d @ ''/'')"

definition segmentAwareInside :: "string \<Rightarrow> string \<Rightarrow> bool" where
  "segmentAwareInside root p = (p = root \<or> startsWith p (withTrailingSlash root))"

definition insideSomeRoot :: "string list \<Rightarrow> string \<Rightarrow> bool" where
  "insideSomeRoot allowedDirectories p =
     list_ex (\<lambda>root. segmentAwareInside root p) allowedDirectories"

text \<open>The length of the longest run of the character \<open>c\<close> in a string.\<close>

fun longestRun :: "char \<Rightarrow> string \<Rightarrow> nat" where
  "longestRun c [] = 0"
| "longestRun c (x # xs) = max (length (takeWhile (\<lambda>y. y = c) (x # xs))) (longestRun c xs)"



text \<open>Every CR of the string is followed at once by LF: the string has CR LF line endings only.\<close>

fun crOnlyBeforeLf :: "string \<Rightarrow> bool" where
  "crOnlyBeforeLf (c # d # r) =
     (if c = CHR 0x0D then d = CHR 0x0A \<and> crOnlyBeforeLf r else crOnlyBeforeLf (d # r))"
| "crOnlyBeforeLf [c] = (c \<noteq> CHR 0x0D)"
| "crOnlyBeforeLf [] = True"

section \<open>Example data\<close>

text \<open>
  A stand-in for \<open>createTwoFilesPatch\<close> in the examples; every theorem below holds for
  every patcher.
\<close>

definition samplePatch :: patcher where
  "samplePatch oldFileName newFileName oldStr newStr oldHeader newHeader =
     ''--- '' @ oldFileName @ '' '' @ oldHeader @ [CHR 0x0A]
       @ ''+++ '' @ newFileName @ '' '' @ newHeader @ [CHR 0x0A]
       @ ''-'' @ oldStr @ [CHR 0x0A] @ ''+'' @ newStr @ [CHR 0x0A]"

text \<open>
  One allowed root \<open>/data\<close> holding a small file, a file with a run of four backticks
  and a file with CR LF line endings.
\<close>

definition editWorld :: world where
  "editWorld =
     \<lparr>homedir = ''/home/u'', cwd = ''/'',
      nodes = [(''/data'', Dir),
               (''/data/f'', File ''abc''),
               (''/data/md'', File (''x'' @ replicate 4 CHR 0x60 @ ''y'')),
               (''/data/crlf'', File (''a'' @ [CHR 0x0D, CHR 0x0A] @ ''b'' @ [CHR 0x0D, CHR 0x0A]
                                      @ ''c'' @ [CHR 0x0D, CHR 0x0A]))]\<rparr>"

text \<open>
  One allowed root \<open>/data\<close> with a symbolic link that leaves it, a sibling directory
  \<open>/data2\<close> whose name starts with the root's, and a directory outside.
\<close>

definition sandboxWorld :: world where
  "sandboxWorld =
     \<lparr>homedir = ''/home/u'', cwd = ''/'',
      nodes = [(''/data'', Dir),
               (''/data/link'', Symlink ''/etc/passwd''),
               (''/data2'', Dir),
               (''/data2/secret'', File ''s3cret''),
               (''/etc'', Dir),
               (''/etc/passwd'', File ''root:x:0:0'')]\<rparr>"

text \<open>One allowed root \<open>/data\<close> with two files.\<close>

definition moveWorld :: world where
  "moveWorld =
     \<lparr>homedir = ''/home/u'', cwd = ''/'',
      nodes = [(''/data'', Dir),
               (''/data/a.txt'', File ''new''),
               (''/data/b.txt'', File ''old'')]\<rparr>"

text \<open>One allowed root \<open>/data\<close> with a file whose first line ends in CR CR LF.\<close>

definition strayCrWorld :: world where
  "strayCrWorld =
     \<lparr>homedir = ''/home/u'', cwd = ''/'',
      nodes = [(''/data'', Dir),
               (''/data/stray'', File (''x'' @ [CHR 0x0D, CHR 0x0D, CHR 0x0A] @ ''y''
                                       @ [CHR 0x0D, CHR 0x0A] @ ''z''))]\<rparr>"

section \<open>PathSandbox: what \<open>validatePath\<close> admits\<close>

lemma startsWith_refl: "startsWith s s"
  by (induction s) auto

lemma startsWith_append_left: "startsWith s (a @ b) \<Longrightarrow> startsWith s a"
  by (induction s a rule: startsWith.induct) auto

lemma startsWith_append_right: "startsWith s t \<Longrightarrow> startsWith (s @ x) t"
  by (induction s t rule: startsWith.induct) auto

lemma segmentAwareInside_startsWith: "segmentAwareInside root p \<Longrightarrow> startsWith p root"
  by (auto simp: segmentAwareInside_def withTrailingSlash_def startsWith_refl
           dest: startsWith_append_left split: if_splits)

lemma insideSomeRoot_isAllowed:
  "insideSomeRoot allowedDirectories p \<Longrightarrow> isAllowed allowedDirectories p"
  by (auto simp: insideSomeRoot_def isAllowed_def list_ex_iff dest: segmentAwareInside_startsWith)

text \<open>
  The error that the \<open>try\<close> block throws for a resolved path outside the allowed
  directories is caught by the block's own \<open>catch\<close>: the outcome is that of the parent
  check.
\<close>

lemma escape_error_is_caught:
  assumes "isAllowed allowedDirectories (normalizePath (absolutePath w p))"
    and "fs_realpath w (absolutePath w p) = Some realPath"
    and "\<not> isAllowed allowedDirectories (normalizePath realPath)"
  shows "validatePath allowedDirectories w p = checkParent allowedDirectories w (absolutePath w p)"
  using assms by (simp add: validatePath_def tryRealPath_def Let_def)

text \<open>
  Claim C1 (fails on the code). \<open>/data/link\<close> is a symbolic link inside the allowed root
  \<open>/data\<close>; it resolves to \<open>/etc/passwd\<close>, outside every allowed root. The claim asks
  for a failure with \<open>AccessDenied\<close>; \<open>validatePath\<close> returns the literal path
  \<open>/data/link\<close>, and reading that path reads the file outside the root.
\<close>

theorem validatePath_admits_symlink_escape:
  "segmentAwareInside ''/data'' (normalizePath (absolutePath sandboxWorld ''/data/link''))
   \<and> isAllowed [''/data''] (normalizePath (absolutePath sandboxWorld ''/data/link''))
   \<and> fs_realpath sandboxWorld ''/data/link'' = Some ''/etc/passwd''
   \<and> \<not> isAllowed [''/data''] (normalizePath ''/etc/passwd'')
   \<and> \<not> insideSomeRoot [''/data''] (normalizePath ''/etc/passwd'')
   \<and> validatePath [''/data''] sandboxWorld ''/data/link'' = Inr ''/data/link''
   \<and> fs_readFile sandboxWorld ''/data/link'' = Inr ''root:x:0:0''"
  by code_simp

text \<open>
  The prefix test of \<open>isAllowed\<close> admits the sibling \<open>/data2\<close> of the allowed root
  \<open>/data\<close>.
\<close>

lemma validatePath_admits_sibling:
  "\<not> segmentAwareInside ''/data'' (normalizePath (absolutePath sandboxWorld ''/data2/secret''))
   \<and> validatePath [''/data''] sandboxWorld ''/data2/secret'' = Inr ''/data2/secret''"
  by code_simp

text \<open>
  Claim C2 as stated fails: \<open>/data/missing/f\<close> is inside the allowed root \<open>/data\<close>,
  and \<open>validatePath\<close> rejects it, because its parent directory does not exist.
\<close>

theorem inside_path_rejected_counterexample:
  "segmentAwareInside ''/data'' (normalizePath (absolutePath sandboxWorld ''/data/missing/f''))
   \<and> validatePath [''/data''] sandboxWorld ''/data/missing/f''
       = Inl (ParentUnreachable ''/data/missing'')"
  by code_simp

text \<open>
  Claim C2, amended. \<open>validatePath\<close> fails with \<open>AccessDenied\<close> when no allowed
  directory is a string prefix of the canonical path. When the canonical path is inside
  an allowed directory (segment-aware), \<open>validatePath\<close> returns the resolved path if the
  path resolves to a path inside an allowed directory; it returns the absolute path if
  the path does not resolve and its parent directory resolves to a path inside an allowed
  directory; it fails with \<open>ParentUnreachable\<close> if neither the path nor its parent
  resolves. Nothing is stated about a path outside every allowed directory that has one
  as a string prefix.
\<close>

theorem validatePath_containment:
  "(\<not> isAllowed allowedDirectories (normalizePath (absolutePath w p)) \<longrightarrow>
      validatePath allowedDirectories w p = Inl (AccessDenied (absolutePath w p) allowedDirectories))
   \<and> (insideSomeRoot allowedDirectories (normalizePath (absolutePath w p))
        \<and> fs_realpath w (absolutePath w p) = Some realPath
        \<and> insideSomeRoot allowedDirectories (normalizePath realPath) \<longrightarrow>
      validatePath allowedDirectories w p = Inr realPath)
   \<and> (insideSomeRoot allowedDirectories (normalizePath (absolutePath w p))
        \<and> fs_realpath w (absolutePath w p) = None
        \<and> fs_realpath w (path_dirname (absolutePath w p)) = Some realParentPath
        \<and> insideSomeRoot allowedDirectories (normalizePath realParentPath) \<longrightarrow>
      validatePath allowedDirectories w p = Inr (absolutePath w p))
   \<and> (insideSomeRoot allowedDirectories (normalizePath (absolutePath w p))
        \<and> fs_realpath w (absolutePath w p) = None
        \<and> fs_realpath w (path_dirname (absolutePath w p)) = None \<longrightarrow>
      validatePath allowedDirectories w p = Inl (ParentUnreachable (path_dirname (absolutePath w p))))"
  by (auto simp: validatePath_def tryRealPath_def checkParent_def Let_def
           dest: insideSomeRoot_isAllowed)

theorem validatePath_containment_witness:
  "validatePath [''/data''] sandboxWorld ''/etc/passwd'' = Inl (AccessDenied ''/etc/passwd'' [''/data''])
   \<and> validatePath [''/data''] sandboxWorld ''/data/../data2/secret/../../data/./new.txt''
       = Inr ''/data/new.txt''"
proof -
  have a1: "absolutePath sandboxWorld ''/etc/passwd'' = ''/etc/passwd''"
    by code_simp
  have h1: "\<not> isAllowed [''/data''] (normalizePath (absolutePath sandboxWorld ''/etc/passwd''))"
    by code_simp
  have c1: "validatePath [''/data''] sandboxWorld ''/etc/passwd''
              = Inl (AccessDenied ''/etc/passwd'' [''/data''])"
    using validatePath_containment [of "[''/data'']" sandboxWorld "''/etc/passwd''"] h1 a1 by simp
  let ?p = "''/data/../data2/secret/../../data/./new.txt''"
  have a2: "absolutePath sandboxWorld ?p = ''/data/new.txt''"
    by code_simp
  have h2: "insideSomeRoot [''/data''] (normalizePath ''/data/new.txt'')"
    by code_simp
  have h3: "fs_realpath sandboxWorld ''/data/new.txt'' = None"
    by code_simp
  have h4: "fs_realpath sandboxWorld (path_dirname ''/data/new.txt'') = Some ''/data''"
    by code_simp
  have h5: "insideSomeRoot [''/data''] (normalizePath ''/data'')"
    by code_simp
  have c2: "validatePath [''/data''] sandboxWorld ?p = Inr ''/data/new.txt''"
    using validatePath_containment [of "[''/data'']" sandboxWorld ?p _ "''/data''"] a2 h2 h3 h4 h5
    by simp
  from c1 c2 show ?thesis by simp
qed

section \<open>\<open>copy_file\<close> and \<open>move_file\<close>: an existing destination\<close>

lemma indexOf_Nil: "indexOf x [] = Some 0"
  by (cases x) auto

lemma js_includes_Cons: "js_includes (c # s) t = (startsWith (c # s) t \<or> js_includes s t)"
  by (simp add: js_includes_def)

lemma js_includes_append: "js_includes s t \<Longrightarrow> js_includes (s @ x) t"
proof (induction s)
  case Nil
  then show ?case by (simp add: js_includes_def indexOf_Nil split: if_splits)
next
  case (Cons c s)
  then show ?case
    using startsWith_append_right [of "c # s" t x]
    by (auto simp: js_includes_Cons simp del: startsWith.simps)
qed

text \<open>\<open>copy_file\<close> rejects an existing destination and changes nothing.\<close>

lemma copy_file_existing_destination:
  assumes "validatePath allowedDirectories w source = Inr validSourcePath"
    and "validatePath allowedDirectories w destination = Inr validDestPath"
    and "fs_access w validDestPath = Inr ()"
  shows "copy_file allowedDirectories w source destination = (Inl (AlreadyExists destination), w)"
proof -
  have "js_includes ''Destination already exists: '' ''already exists''"
    by code_simp
  then have "js_includes (errorMessage (AlreadyExists destination)) ''already exists''"
    by (simp add: js_includes_append del: append.simps)
  then have "destinationCheck w validDestPath destination = Some (AlreadyExists destination)"
    using assms(3) by (simp add: destinationCheck_def)
  then show ?thesis
    using assms(1,2) by (simp add: copy_file_def)
qed

lemma copy_file_existing_destination_example:
  "copy_file [''/data''] moveWorld ''/data/a.txt'' ''/data/b.txt''
     = (Inl (AlreadyExists ''/data/b.txt''), moveWorld)"
proof -
  have 1: "validatePath [''/data''] moveWorld ''/data/a.txt'' = Inr ''/data/a.txt''"
    by code_simp
  have 2: "validatePath [''/data''] moveWorld ''/data/b.txt'' = Inr ''/data/b.txt''"
    by code_simp
  have 3: "fs_access moveWorld ''/data/b.txt'' = Inr ()"
    by code_simp
  show ?thesis
    using copy_file_existing_destination [OF 1 2 3] .
qed

text \<open>
  Claim C3 (fails on the code for \<open>move_file\<close>). The validated destination
  \<open>/data/b.txt\<close> exists. The claim asks for a failure with \<open>AlreadyExists\<close> and an
  untouched destination; \<open>move_file\<close> makes no existence check, \<open>fs.rename\<close> replaces
  the destination, and the handler reports success: the old content of \<open>/data/b.txt\<close>
  is gone.
\<close>

theorem move_file_replaces_existing_destination:
  "validatePath [''/data''] moveWorld ''/data/b.txt'' = Inr ''/data/b.txt''
   \<and> fs_access moveWorld ''/data/b.txt'' = Inr ()
   \<and> move_file [''/data''] moveWorld ''/data/a.txt'' ''/data/b.txt''
       = (Inr ''Successfully moved /data/a.txt to /data/b.txt'',
          moveWorld\<lparr>nodes := [(''/data'', Dir), (''/data/b.txt'', File ''new'')]\<rparr>)"
  by code_simp

section \<open>PatchEngine: what reaches the disk\<close>

lemma applyEdits_append:
  "applyEdits c (earlier @ es) =
     (case applyEdits c earlier of Inl err \<Rightarrow> Inl err | Inr b \<Rightarrow> applyEdits b es)"
  by (induction earlier arbitrary: c) (auto split: sum.splits)

lemma applyEdit_unmatched:
  assumes "\<not> js_includes buffer (normalizeLineEndings (oldText e))"
    and "findMatch (js_split CHR 0x0A (normalizeLineEndings (oldText e))) (js_split CHR 0x0A buffer) = None"
  shows "applyEdit buffer e = Inl (EditNotFound (oldText e))"
  using assms by (simp add: applyEdit_def lineWindow_def Let_def)

lemma applyFileEdits_failure_keeps_world:
  "fst (applyFileEdits createTwoFilesPatch w filePath edits dryRun) = Inl err \<Longrightarrow>
   snd (applyFileEdits createTwoFilesPatch w filePath edits dryRun) = w"
  by (auto simp: applyFileEdits_def Let_def split: sum.splits if_splits)

text \<open>
  Claim C4. When the edits before \<open>e\<close> apply and turn the normalized file content into
  \<open>buffer\<close>, and the old text of \<open>e\<close> matches \<open>buffer\<close> by neither strategy (it is not a
  substring, and no line window matches), then \<open>applyFileEdits\<close> fails with
  \<open>EditNotFound\<close> carrying the old text of \<open>e\<close> as the caller gave it, and the file
  system is the one it started with: nothing of the earlier edits is written.
\<close>

theorem unmatched_edit_aborts_batch:
  assumes "fs_readFile w filePath = Inr raw"
    and "applyEdits (normalizeLineEndings raw) earlier = Inr buffer"
    and "\<not> js_includes buffer (normalizeLineEndings (oldText e))"
    and "findMatch (js_split CHR 0x0A (normalizeLineEndings (oldText e))) (js_split CHR 0x0A buffer) = None"
  shows "applyFileEdits createTwoFilesPatch w filePath (earlier @ e # later) dryRun
           = (Inl (EditNotFound (oldText e)), w)"
proof -
  have "applyEdit buffer e = Inl (EditNotFound (oldText e))"
    using assms(3,4) by (rule applyEdit_unmatched)
  then have "applyEdits (normalizeLineEndings raw) (earlier @ e # later)
               = Inl (EditNotFound (oldText e))"
    using assms(2) by (simp add: applyEdits_append)
  then show ?thesis
    using assms(1) by (simp add: applyFileEdits_def)
qed

theorem unmatched_edit_aborts_batch_witness:
  "applyFileEdits samplePatch editWorld ''/data/f''
     ([\<lparr>oldText = ''b'', newText = ''B''\<rparr>] @ \<lparr>oldText = ''zz'', newText = ''y''\<rparr> # []) False
   = (Inl (EditNotFound ''zz''), editWorld)"
proof -
  have 1: "fs_readFile editWorld ''/data/f'' = Inr ''abc''"
    by code_simp
  have 2: "applyEdits (normalizeLineEndings ''abc'') [\<lparr>oldText = ''b'', newText = ''B''\<rparr>] = Inr ''aBc''"
    by code_simp
  have 3: "\<not> js_includes ''aBc'' (normalizeLineEndings (oldText \<lparr>oldText = ''zz'', newText = ''y''\<rparr>))"
    by code_simp
  have 4: "findMatch (js_split CHR 0x0A (normalizeLineEndings (oldText \<lparr>oldText = ''zz'', newText = ''y''\<rparr>)))
             (js_split CHR 0x0A ''aBc'') = None"
    by code_simp
  show ?thesis
    using unmatched_edit_aborts_batch [OF 1 2 3 4, of samplePatch "[]" False] by simp
qed

text \<open>
  Claim C9. With \<open>dryRun = true\<close> the file system after \<open>applyFileEdits\<close>, and after
  the \<open>edit_file\<close> handler, is the file system before it, whatever the file, the edits
  and the outcome; when the file can be read and the edits apply, the outcome is the
  formatted diff.
\<close>

theorem dryRun_never_writes:
  "snd (applyFileEdits createTwoFilesPatch w filePath edits True) = w
   \<and> snd (edit_file createTwoFilesPatch allowedDirectories w path edits True) = w
   \<and> (fs_readFile w filePath = Inr raw
        \<and> applyEdits (normalizeLineEndings raw) edits = Inr modifiedContent \<longrightarrow>
      fst (applyFileEdits createTwoFilesPatch w filePath edits True)
        = Inr (formatDiff (createUnifiedDiff createTwoFilesPatch (normalizeLineEndings raw)
                             modifiedContent filePath)))"
  by (simp add: applyFileEdits_def edit_file_def Let_def split: sum.splits)

theorem dryRun_never_writes_witness:
  "applyFileEdits samplePatch editWorld ''/data/f'' [\<lparr>oldText = ''b'', newText = ''B''\<rparr>] True
   = (Inr (formatDiff (samplePatch ''/data/f'' ''/data/f'' ''abc'' ''aBc'' ''original'' ''modified'')),
      editWorld)"
proof -
  let ?edits = "[\<lparr>oldText = ''b'', newText = ''B''\<rparr>]"
  have r: "fs_readFile editWorld ''/data/f'' = Inr ''abc''"
    by code_simp
  have m: "applyEdits (normalizeLineEndings ''abc'') ?edits = Inr ''aBc''"
    by code_simp
  have d: "createUnifiedDiff samplePatch (normalizeLineEndings ''abc'') ''aBc'' ''/data/f''
             = samplePatch ''/data/f'' ''/data/f'' ''abc'' ''aBc'' ''original'' ''modified''"
    by code_simp
  from dryRun_never_writes [of samplePatch editWorld "''/data/f''" ?edits "[]" "[]" "''abc''" "''aBc''"] r m
  have "snd (applyFileEdits samplePatch editWorld ''/data/f'' ?edits True) = editWorld"
    and "fst (applyFileEdits samplePatch editWorld ''/data/f'' ?edits True)
           = Inr (formatDiff (createUnifiedDiff samplePatch (normalizeLineEndings ''abc'') ''aBc'' ''/data/f''))"
    by blast+
  then show ?thesis
    unfolding d by (simp add: prod_eq_iff)
qed

subsection \<open>Reading back what \<open>fs.writeFile\<close> wrote\<close>

lemma map_of_filter_key:
  "map_of (filter (\<lambda>e. fst e \<noteq> r) xs) q = (if q = r then None else map_of xs q)"
  by (induction xs) auto

lemma nodeAt_setNode:
  "r \<noteq> ''/'' \<Longrightarrow> nodeAt (setNode w r n) q = (if q = r then Some n else nodeAt w q)"
  by (simp add: nodeAt_def setNode_def map_of_filter_key)

lemma cwd_setNode: "cwd (setNode w p n) = cwd w"
  by (simp add: setNode_def)

text \<open>Replacing the content of a file changes no path resolution.\<close>

lemma realpathLoop_setNode_File:
  "nodeAt w r = Some (File old) \<Longrightarrow>
   realpathLoop (setNode w r (File c)) m fuel cur rest = realpathLoop w m fuel cur rest"
proof (induction w m fuel cur rest rule: realpathLoop.induct)
  case (1 w m fuel cur)
  then show ?case by simp
next
  case (2 w m fuel cur s rest)
  from "2.prems" have r: "r \<noteq> ''/''" by (auto simp: nodeAt_def)
  show ?case
  proof (cases "fromSegments (cur @ [s]) = r")
    case True
    with "2.prems" r show ?thesis by (simp add: nodeAt_setNode)
  next
    case False
    with 2 r show ?thesis
      by (simp add: nodeAt_setNode split: option.splits node.splits nat.splits)
  qed
qed

lemma fs_realpath_setNode_File:
  "nodeAt w r = Some (File old) \<Longrightarrow> fs_realpath (setNode w r (File c)) p = fs_realpath w p"
  by (simp add: fs_realpath_def realpathLoop_setNode_File cwd_setNode)

lemma realpathLoop_missingOk:
  "realpathLoop w False fuel cur rest = Some r \<Longrightarrow> realpathLoop w True fuel cur rest = Some r"
  by (induction w False fuel cur rest rule: realpathLoop.induct)
     (auto split: option.splits node.splits nat.splits if_splits)

lemma write_then_read:
  assumes "fs_readFile w p = Inr raw" and "fs_writeFile w p c = Inr w'"
  shows "fs_readFile w' p = Inr c"
proof -
  from assms(1) obtain r where r: "fs_realpath w p = Some r" and n: "nodeAt w r = Some (File raw)"
    by (auto simp: fs_readFile_def split: option.splits node.splits)
  from r have "resolveForCreate w p = Some r"
    by (simp add: fs_realpath_def resolveForCreate_def realpathLoop_missingOk)
  with assms(2) n have w': "w' = setNode w r (File c)"
    by (simp add: fs_writeFile_def)
  from n have "r \<noteq> ''/''" by (auto simp: nodeAt_def)
  then show ?thesis
    using r n by (simp add: w' fs_readFile_def fs_realpath_setNode_File nodeAt_setNode)
qed

text \<open>
  A successful \<open>edit_file\<close> with \<open>dryRun = false\<close> leaves, at the validated path, the
  buffer that the edits made of the normalized content.
\<close>

lemma edit_file_success_written:
  assumes "edit_file createTwoFilesPatch allowedDirectories w path edits False
             = (Inr formattedDiff, w')"
  shows "\<exists>validPath raw modifiedContent.
           validatePath allowedDirectories w path = Inr validPath
         \<and> fs_readFile w validPath = Inr raw
         \<and> applyEdits (normalizeLineEndings raw) edits = Inr modifiedContent
         \<and> fs_readFile w' validPath = Inr modifiedContent"
proof -
  from assms obtain validPath where v: "validatePath allowedDirectories w path = Inr validPath"
    and a: "applyFileEdits createTwoFilesPatch w validPath edits False = (Inr formattedDiff, w')"
    by (auto simp: edit_file_def split: sum.splits)
  from a obtain raw where raw: "fs_readFile w validPath = Inr raw"
    by (auto simp: applyFileEdits_def split: sum.splits)
  from a raw obtain modifiedContent where
    m: "applyEdits (normalizeLineEndings raw) edits = Inr modifiedContent"
    by (auto simp: applyFileEdits_def Let_def split: sum.splits)
  from a raw m have "fs_writeFile w validPath modifiedContent = Inr w'"
    by (auto simp: applyFileEdits_def Let_def split: sum.splits)
  with raw have "fs_readFile w' validPath = Inr modifiedContent"
    by (rule write_then_read)
  with v raw m show ?thesis by blast
qed

section \<open>PatchEngine: the exact-substring strategy\<close>

lemma getSubstitution_no_dollar:
  "CHR ''$'' \<notin> set r \<Longrightarrow> getSubstitution m b a r = r"
  by (induction m b a r rule: getSubstitution.induct) auto

text \<open>\<open>indexOf\<close> returns the first position at which the pattern starts.\<close>

lemma indexOf_Some_iff:
  "indexOf s t = Some i \<longleftrightarrow>
     i \<le> length s \<and> startsWith (drop i s) t \<and> (\<forall>j<i. \<not> startsWith (drop j s) t)"
proof (induction s arbitrary: i)
  case Nil
  then show ?case by (cases t) auto
next
  case (Cons c s)
  show ?case
  proof (cases "startsWith (c # s) t")
    case True
    then show ?thesis by (cases i) (auto simp del: startsWith.simps)
  next
    case False
    show ?thesis
    proof (cases i)
      case 0
      with False show ?thesis by simp
    next
      case (Suc k)
      have "(\<forall>j<Suc k. \<not> startsWith (drop j (c # s)) t) = (\<forall>j<k. \<not> startsWith (drop j s) t)"
        using False by (auto simp: less_Suc_eq_0_disj simp del: startsWith.simps)
      with False Suc Cons.IH [of k] show ?thesis
        by (auto simp del: startsWith.simps)
    qed
  qed
qed

text \<open>
  When the new text has no dollar sign, the exact-substring strategy puts it, as it is,
  in the place of the first occurrence of the old text.
\<close>

lemma exact_replace_literal:
  assumes "js_includes buffer (normalizeLineEndings (oldText e))"
    and "CHR ''$'' \<notin> set (normalizeLineEndings (newText e))"
  shows "\<exists>i. indexOf buffer (normalizeLineEndings (oldText e)) = Some i
           \<and> applyEdit buffer e =
               Inr (take i buffer @ normalizeLineEndings (newText e)
                      @ drop (i + length (normalizeLineEndings (oldText e))) buffer)"
  using assms
  by (auto simp: applyEdit_def js_replace_def js_includes_def Let_def getSubstitution_no_dollar)

text \<open>
  Claim C5 (fails on the code). The old text \<open>X\<close> occurs in the buffer \<open>cost: X\<close> and
  the new text is \<open>$$5\<close>. The claim asks for the buffer \<open>cost: $$5\<close> (prefix, new
  text, remainder); \<open>String.prototype.replace\<close> reads the new text as a replacement
  template, in which \<open>$$\<close> stands for one dollar sign, and the buffer becomes
  \<open>cost: $5\<close>.
\<close>

theorem exact_replace_expands_dollar_patterns:
  "js_includes ''cost: X'' ''X''
   \<and> indexOf ''cost: X'' ''X'' = Some 6
   \<and> applyEdit ''cost: X'' \<lparr>oldText = ''X'', newText = ''$$5''\<rparr> = Inr ''cost: $5''
   \<and> take 6 ''cost: X'' @ ''$$5'' @ drop (6 + length ''X'') ''cost: X'' = ''cost: $$5''"
  by code_simp

lemma exact_replace_expands_match_pattern:
  "applyEdit ''a x b'' \<lparr>oldText = ''x'', newText = ''[$&]''\<rparr> = Inr ''a [x] b''"
  by code_simp

section \<open>PatchEngine: the line-window strategy\<close>

lemma js_split_nonempty: "js_split sep s \<noteq> []"
  by (induction s) (auto split: list.splits)

lemma replacementLines_length: "length (replacementLines ind ol nl) = length nl"
  by (simp add: replacementLines_def)

lemma replacementLines_nth:
  "j < length nl \<Longrightarrow> replacementLines ind ol nl ! j = replacementLine ind ol j (nl ! j)"
  by (simp add: replacementLines_def nth_enumerate_eq)

lemma leadingWhitespace_trimStart: "leadingWhitespace (trimStart s) = []"
  by (induction s) (auto simp: leadingWhitespace_def trimStart_def)

lemma leadingWhitespace_indent:
  assumes "\<forall>c \<in> set ind. isWhiteSpace c"
  shows "leadingWhitespace (ind @ trimStart s) = ind"
  using assms leadingWhitespace_trimStart [of s]
  by (simp add: leadingWhitespace_def takeWhile_append2)

lemma leadingWhitespace_all: "\<forall>c \<in> set (leadingWhitespace s). isWhiteSpace c"
  by (auto simp: leadingWhitespace_def dest: set_takeWhileD)

lemma isWhiteSpace_space: "isWhiteSpace CHR '' ''"
  by (simp add: isWhiteSpace_def)

lemma leadingWhitespace_indent_spaces:
  "leadingWhitespace (leadingWhitespace t @ replicate k CHR '' '' @ trimStart s)
     = leadingWhitespace t @ replicate k CHR '' ''"
proof -
  have "\<forall>c \<in> set (leadingWhitespace t @ replicate k CHR '' ''). isWhiteSpace c"
    using leadingWhitespace_all [of t] by (auto simp: isWhiteSpace_space)
  from leadingWhitespace_indent [OF this, of s] show ?thesis by simp
qed

text \<open>
  Claim C6 as stated fails. The window starts with two spaces of indentation; the second
  old line has four spaces and the second new line two. The claim gives the second
  replacement line the original indentation plus the signed difference, 2 + (2 - 4) = 0
  characters; the code clamps the difference at zero and the line keeps the two spaces
  of the original indentation.
\<close>

theorem negative_relative_indent_counterexample:
  "(let modifiedContent = ''  a\<newline>      b'';
        normalizedOld = ''a\<newline>    b'';
        normalizedNew = ''x\<newline>  y'';
        oldLines = js_split CHR 0x0A normalizedOld;
        contentLines = js_split CHR 0x0A modifiedContent;
        newTextLines = js_split CHR 0x0A normalizedNew;
        originalIndent = leadingWhitespace (contentLines ! 0);
        newLines = replacementLines originalIndent oldLines newTextLines
    in \<not> js_includes modifiedContent normalizedOld
     \<and> findMatch oldLines contentLines = Some 0
     \<and> applyEdit modifiedContent \<lparr>oldText = normalizedOld, newText = normalizedNew\<rparr>
         = Inr ''  x\<newline>  y''
     \<and> leadingWhitespace (oldLines ! 1) = ''    ''
     \<and> leadingWhitespace (newTextLines ! 1) = ''  ''
     \<and> originalIndent = ''  ''
     \<and> newLines ! 1 = ''  y''
     \<and> int (length (leadingWhitespace (newLines ! 1)))
         \<noteq> int (length originalIndent)
            + (int (length (leadingWhitespace (newTextLines ! 1)))
               - int (length (leadingWhitespace (oldLines ! 1)))))"
  by code_simp

text \<open>
  Claim C6, amended. When the window at line \<open>i\<close> is the first that matches, the window
  is replaced by the replacement lines. The first replacement line is the window's
  original leading indentation followed by the first new line without its leading white
  space. Every later replacement line whose paired old line and new line both have
  leading white space is the original indentation, then as many spaces as the new line's
  indentation is longer than the old line's (none when it is not longer), then the new
  line without its leading white space.
\<close>

theorem line_window_indentation:
  assumes "findMatch (js_split CHR 0x0A normalizedOld) (js_split CHR 0x0A modifiedContent) = Some i"
  shows "let oldLines = js_split CHR 0x0A normalizedOld;
             contentLines = js_split CHR 0x0A modifiedContent;
             newTextLines = js_split CHR 0x0A normalizedNew;
             originalIndent = leadingWhitespace (contentLines ! i);
             newLines = replacementLines originalIndent oldLines newTextLines
         in lineWindow modifiedContent normalizedOld normalizedNew
              = Some (js_join [CHR 0x0A]
                        (take i contentLines @ newLines @ drop (i + length oldLines) contentLines))
          \<and> length newLines = length newTextLines
          \<and> newLines ! 0 = originalIndent @ trimStart (newTextLines ! 0)
          \<and> leadingWhitespace (newLines ! 0) = originalIndent
          \<and> (\<forall>j. 0 < j \<and> j < length newTextLines \<and> j < length oldLines
                  \<and> leadingWhitespace (oldLines ! j) \<noteq> []
                  \<and> leadingWhitespace (newTextLines ! j) \<noteq> [] \<longrightarrow>
                 newLines ! j
                   = originalIndent
                       @ replicate (length (leadingWhitespace (newTextLines ! j))
                                     - length (leadingWhitespace (oldLines ! j))) CHR '' ''
                       @ trimStart (newTextLines ! j)
               \<and> leadingWhitespace (newLines ! j)
                   = originalIndent
                       @ replicate (length (leadingWhitespace (newTextLines ! j))
                                     - length (leadingWhitespace (oldLines ! j))) CHR '' '')"
proof -
  define oldLines where "oldLines = js_split CHR 0x0A normalizedOld"
  define contentLines where "contentLines = js_split CHR 0x0A modifiedContent"
  define newTextLines where "newTextLines = js_split CHR 0x0A normalizedNew"
  define originalIndent where "originalIndent = leadingWhitespace (contentLines ! i)"
  define newLines where "newLines = replacementLines originalIndent oldLines newTextLines"
  have pos: "0 < length newTextLines"
    using js_split_nonempty [of "CHR 0x0A" normalizedNew] by (simp add: newTextLines_def)
  have spliced: "lineWindow modifiedContent normalizedOld normalizedNew
              = Some (js_join [CHR 0x0A]
                        (take i contentLines @ newLines @ drop (i + length oldLines) contentLines))"
    using assms
    by (simp add: lineWindow_def Let_def oldLines_def contentLines_def newTextLines_def
                  originalIndent_def newLines_def)
  have len: "length newLines = length newTextLines"
    by (simp add: newLines_def replacementLines_length)
  have first: "newLines ! 0 = originalIndent @ trimStart (newTextLines ! 0)"
    using pos by (simp add: newLines_def replacementLines_nth replacementLine_def)
  have firstIndent: "leadingWhitespace (newLines ! 0) = originalIndent"
    unfolding first originalIndent_def
    using leadingWhitespace_indent_spaces [of "contentLines ! i" 0 "newTextLines ! 0"] by simp
  have later: "newLines ! j
                   = originalIndent
                       @ replicate (length (leadingWhitespace (newTextLines ! j))
                                     - length (leadingWhitespace (oldLines ! j))) CHR '' ''
                       @ trimStart (newTextLines ! j)
               \<and> leadingWhitespace (newLines ! j)
                   = originalIndent
                       @ replicate (length (leadingWhitespace (newTextLines ! j))
                                     - length (leadingWhitespace (oldLines ! j))) CHR '' ''"
    if "0 < j" "j < length newTextLines" "j < length oldLines"
       "leadingWhitespace (oldLines ! j) \<noteq> []" "leadingWhitespace (newTextLines ! j) \<noteq> []" for j
  proof -
    have k: "nat (max 0 (int (length (leadingWhitespace (newTextLines ! j)))
                          - int (length (leadingWhitespace (oldLines ! j)))))
               = length (leadingWhitespace (newTextLines ! j)) - length (leadingWhitespace (oldLines ! j))"
      by linarith
    have line: "newLines ! j
                   = originalIndent
                       @ replicate (length (leadingWhitespace (newTextLines ! j))
                                     - length (leadingWhitespace (oldLines ! j))) CHR '' ''
                       @ trimStart (newTextLines ! j)"
      using that by (simp add: newLines_def replacementLines_nth replacementLine_def Let_def k)
    show ?thesis
      unfolding line originalIndent_def
      using leadingWhitespace_indent_spaces by simp
  qed
  from spliced len first firstIndent later show ?thesis
    unfolding Let_def oldLines_def [symmetric] contentLines_def [symmetric]
      newTextLines_def [symmetric] originalIndent_def [symmetric] newLines_def [symmetric]
    by blast
qed

theorem line_window_indentation_witness:
  "lineWindow ''  a\<newline>      b'' ''a\<newline>  b'' ''x\<newline>    y'' = Some ''  x\<newline>    y''"
proof -
  let ?OL = "js_split CHR 0x0A ''a\<newline>  b''"
  let ?CL = "js_split CHR 0x0A ''  a\<newline>      b''"
  let ?NL = "js_split CHR 0x0A ''x\<newline>    y''"
  have h: "findMatch ?OL ?CL = Some 0"
    by code_simp
  have e: "js_join [CHR 0x0A]
             (take 0 ?CL @ replacementLines (leadingWhitespace (?CL ! 0)) ?OL ?NL
                @ drop (0 + length ?OL) ?CL)
           = ''  x\<newline>    y''"
    by code_simp
  from line_window_indentation [OF h, of "''x\<newline>    y''", unfolded Let_def, THEN conjunct1]
  show ?thesis by (simp only: e)
qed

section \<open>PatchEngine: the fence of the diff\<close>

lemma startsWith_replicate:
  "startsWith s (replicate n c) = (n \<le> length (takeWhile (\<lambda>y. y = c) s))"
proof (induction s arbitrary: n)
  case Nil
  then show ?case by (cases n) auto
next
  case (Cons x s)
  then show ?case by (cases n) auto
qed

text \<open>A string includes a run of \<open>n\<close> copies of \<open>c\<close> exactly when its longest run has \<open>n\<close> or more.\<close>

lemma js_includes_replicate:
  "js_includes s (replicate n c) = (n \<le> longestRun c s)"
proof (induction s)
  case Nil
  then show ?case by (simp add: js_includes_def)
next
  case (Cons x s)
  have "js_includes (x # s) (replicate n c)
          = (startsWith (x # s) (replicate n c) \<or> js_includes s (replicate n c))"
    by (rule js_includes_Cons)
  also have "\<dots> = (n \<le> length (takeWhile (\<lambda>y. y = c) (x # s)) \<or> n \<le> longestRun c s)"
    by (simp only: startsWith_replicate Cons.IH)
  also have "\<dots> = (n \<le> longestRun c (x # s))"
    by (simp add: le_max_iff_disj del: takeWhile.simps)
  finally show ?case .
qed

lemma numBackticksLoop_eq:
  "numBackticksLoop diff n = max n (longestRun CHR 0x60 diff + 1)"
proof (induction diff n rule: numBackticksLoop.induct)
  case (1 diff n)
  show ?case
  proof (cases "js_includes diff (replicate n CHR 0x60)")
    case True
    then have "n \<le> longestRun CHR 0x60 diff" by (simp add: js_includes_replicate)
    moreover have "numBackticksLoop diff n = numBackticksLoop diff (n + 1)"
      using True by (subst numBackticksLoop.simps) simp
    ultimately show ?thesis using 1 True by simp
  next
    case False
    then have "longestRun CHR 0x60 diff < n" by (simp add: js_includes_replicate)
    moreover have "numBackticksLoop diff n = n"
      using False by (subst numBackticksLoop.simps) simp
    ultimately show ?thesis by simp
  qed
qed

lemma formatDiff_fence:
  "formatDiff diff =
     replicate (max 3 (longestRun CHR 0x60 diff + 1)) CHR 0x60 @ ''diff'' @ [CHR 0x0A] @ diff
       @ replicate (max 3 (longestRun CHR 0x60 diff + 1)) CHR 0x60 @ [CHR 0x0A, CHR 0x0A]
   \<and> longestRun CHR 0x60 diff < max 3 (longestRun CHR 0x60 diff + 1)
   \<and> \<not> js_includes diff (replicate (max 3 (longestRun CHR 0x60 diff + 1)) CHR 0x60)"
proof -
  have fence: "formatDiff diff =
     replicate (max 3 (longestRun CHR 0x60 diff + 1)) CHR 0x60 @ ''diff'' @ [CHR 0x0A] @ diff
       @ replicate (max 3 (longestRun CHR 0x60 diff + 1)) CHR 0x60 @ [CHR 0x0A, CHR 0x0A]"
    by (simp only: formatDiff_def numBackticksLoop_eq Let_def)
  have longer: "longestRun CHR 0x60 diff < max 3 (longestRun CHR 0x60 diff + 1)"
    by linarith
  then have "\<not> js_includes diff (replicate (max 3 (longestRun CHR 0x60 diff + 1)) CHR 0x60)"
    by (simp only: js_includes_replicate not_le)
  with fence longer show ?thesis by blast
qed

text \<open>
  Claim C7 as stated fails. A dry run on \<open>/data/f\<close> succeeds; its diff text has no
  backtick, so one plus its longest run of backticks is 1, and the fence that
  \<open>applyFileEdits\<close> returns has three backticks: the loop starts counting at 3.
\<close>

theorem fence_of_three_counterexample:
  "(let diff = samplePatch ''/data/f'' ''/data/f'' ''abc'' ''aBc'' ''original'' ''modified''
    in applyFileEdits samplePatch editWorld ''/data/f'' [\<lparr>oldText = ''b'', newText = ''B''\<rparr>] True
         = (Inr (replicate 3 CHR 0x60 @ ''diff'' @ [CHR 0x0A] @ diff
                   @ replicate 3 CHR 0x60 @ [CHR 0x0A, CHR 0x0A]), editWorld)
     \<and> longestRun CHR 0x60 diff + 1 = 1)"
  by code_simp

text \<open>
  Claim C7, amended. For every successful edit batch the returned text is the diff
  between a fence line and a closing fence whose marker length is the larger of 3 and one
  plus the longest run of backticks in the diff text. The marker is longer than every
  run of backticks in the diff, so the diff does not include it.
\<close>

theorem fence_longer_than_every_run:
  assumes "applyFileEdits createTwoFilesPatch w filePath edits dryRun = (Inr formattedDiff, w')"
  shows "\<exists>raw modifiedContent.
           fs_readFile w filePath = Inr raw
         \<and> applyEdits (normalizeLineEndings raw) edits = Inr modifiedContent
         \<and> (let diff = createUnifiedDiff createTwoFilesPatch (normalizeLineEndings raw)
                          modifiedContent filePath;
                 numBackticks = max 3 (longestRun CHR 0x60 diff + 1)
             in formattedDiff = replicate numBackticks CHR 0x60 @ ''diff'' @ [CHR 0x0A] @ diff
                                  @ replicate numBackticks CHR 0x60 @ [CHR 0x0A, CHR 0x0A]
              \<and> longestRun CHR 0x60 diff < numBackticks
              \<and> \<not> js_includes diff (replicate numBackticks CHR 0x60))"
proof -
  from assms obtain raw where raw: "fs_readFile w filePath = Inr raw"
    by (auto simp: applyFileEdits_def split: sum.splits)
  from assms raw obtain modifiedContent where
    m: "applyEdits (normalizeLineEndings raw) edits = Inr modifiedContent"
    by (auto simp: applyFileEdits_def Let_def split: sum.splits)
  from assms raw m have
    "formattedDiff = formatDiff (createUnifiedDiff createTwoFilesPatch (normalizeLineEndings raw)
                                   modifiedContent filePath)"
    by (auto simp: applyFileEdits_def Let_def split: sum.splits if_splits)
  with raw m show ?thesis
    using formatDiff_fence
      [of "createUnifiedDiff createTwoFilesPatch (normalizeLineEndings raw) modifiedContent filePath"]
    unfolding Let_def by blast
qed

theorem fence_longer_than_every_run_witness:
  "\<exists>diff. formatDiff (samplePatch ''/data/md'' ''/data/md'' (''x'' @ replicate 4 CHR 0x60 @ ''y'')
                        (''z'' @ replicate 4 CHR 0x60 @ ''y'') ''original'' ''modified'')
             = replicate 5 CHR 0x60 @ ''diff'' @ [CHR 0x0A] @ diff
                 @ replicate 5 CHR 0x60 @ [CHR 0x0A, CHR 0x0A]
         \<and> longestRun CHR 0x60 diff = 4"
proof -
  let ?raw = "''x'' @ replicate 4 CHR 0x60 @ ''y''"
  let ?new = "''z'' @ replicate 4 CHR 0x60 @ ''y''"
  let ?edits = "[\<lparr>oldText = ''x'', newText = ''z''\<rparr>]"
  let ?out = "formatDiff (samplePatch ''/data/md'' ''/data/md'' ?raw ?new ''original'' ''modified'')"
  let ?diff = "createUnifiedDiff samplePatch (normalizeLineEndings ?raw) ?new ''/data/md''"
  have run: "applyFileEdits samplePatch editWorld ''/data/md'' ?edits True = (Inr ?out, editWorld)"
    by code_simp
  from fence_longer_than_every_run [OF run]
  obtain raw modifiedContent where
      r: "fs_readFile editWorld ''/data/md'' = Inr raw"
    and m: "applyEdits (normalizeLineEndings raw) ?edits = Inr modifiedContent"
    and f: "?out = replicate (max 3 (longestRun CHR 0x60
                       (createUnifiedDiff samplePatch (normalizeLineEndings raw) modifiedContent ''/data/md'') + 1))
                     CHR 0x60 @ ''diff'' @ [CHR 0x0A]
                   @ createUnifiedDiff samplePatch (normalizeLineEndings raw) modifiedContent ''/data/md''
                   @ replicate (max 3 (longestRun CHR 0x60
                       (createUnifiedDiff samplePatch (normalizeLineEndings raw) modifiedContent ''/data/md'') + 1))
                     CHR 0x60 @ [CHR 0x0A, CHR 0x0A]"
    unfolding Let_def by blast
  have "fs_readFile editWorld ''/data/md'' = Inr ?raw"
    by code_simp
  with r have raw: "raw = ?raw" by simp
  have "applyEdits (normalizeLineEndings ?raw) ?edits = Inr ?new"
    by code_simp
  with m raw have new: "modifiedContent = ?new" by simp
  have k: "max 3 (longestRun CHR 0x60 ?diff + 1) = 5"
    by code_simp
  have l: "longestRun CHR 0x60 ?diff = 4"
    by code_simp
  from f have "?out = replicate 5 CHR 0x60 @ ''diff'' @ [CHR 0x0A] @ ?diff
                        @ replicate 5 CHR 0x60 @ [CHR 0x0A, CHR 0x0A]"
    unfolding raw new k .
  with l show ?thesis by blast
qed

section \<open>HierarchyWalker: which entries an exclude pattern removes\<close>



lemma wild_literal: "\<not> hasMagic p \<Longrightarrow> wild p f = (f = p)"
  by (induction p f rule: wild.induct) (auto simp: hasMagic_def)







lemma js_split_chars_all: "\<forall>s \<in> set (js_split sep p). set s \<subseteq> set p"
proof (induction p)
  case Nil
  then show ?case by simp
next
  case (Cons c p)
  then show ?case
    by (cases "js_split sep p") (auto split: if_splits)
qed

lemma js_split_chars: "s \<in> set (js_split sep p) \<Longrightarrow> set s \<subseteq> set p"
  using js_split_chars_all by blast











text \<open>
  The directory whose own name is the pattern is not excluded; the entries below it are.
\<close>

lemma directory_entry_itself_not_excluded:
  "\<not> entryExcluded editWorld ''/data'' ''/data/node_modules'' [''node_modules'']
   \<and> entryExcluded editWorld ''/data'' ''/data/node_modules/x.js'' [''node_modules'']"
  by code_simp




section \<open>PatchEngine: the line endings that reach the disk\<close>

lemma normalizeLineEndings_pair:
  "normalizeLineEndings (a @ CHR 0x0D # CHR 0x0A # b)
     = normalizeLineEndings a @ CHR 0x0A # normalizeLineEndings b"
proof (induction a rule: normalizeLineEndings.induct)
  case (1 c d r)
  then show ?case by simp
qed simp_all

lemma normalizeLineEndings_no_cr:
  "crOnlyBeforeLf s \<Longrightarrow> CHR 0x0D \<notin> set (normalizeLineEndings s)"
  by (induction s rule: crOnlyBeforeLf.induct) (auto split: if_splits)

lemma startsWith_chars: "startsWith s t \<Longrightarrow> set t \<subseteq> set s"
  by (induction s t rule: startsWith.induct) auto

lemma indexOf_chars: "indexOf s t = Some i \<Longrightarrow> set t \<subseteq> set s"
proof -
  assume "indexOf s t = Some i"
  then have "startsWith (drop i s) t" by (simp add: indexOf_Some_iff)
  then have "set t \<subseteq> set (drop i s)" by (rule startsWith_chars)
  then show ?thesis using set_drop_subset [of i s] by blast
qed

lemma getSubstitution_chars:
  "set (getSubstitution m p f r) \<subseteq> set r \<union> set m \<union> set p \<union> set f"
proof (induction m p f r rule: getSubstitution.induct)
  case (1 m p f c d r)
  consider (dollar) "c = CHR ''$''" "d = CHR ''$''"
    | (matched) "c = CHR ''$''" "d = CHR ''&''"
    | (preceding) "c = CHR ''$''" "d = CHR 0x60"
    | (following) "c = CHR ''$''" "d = CHR 0x27"
    | (literal) "\<not> (c = CHR ''$'' \<and> (d = CHR ''$'' \<or> d = CHR ''&'' \<or> d = CHR 0x60 \<or> d = CHR 0x27))"
    by blast
  then show ?case
  proof cases
    case dollar
    with "1.IH"(1) have "set (getSubstitution m p f r) \<subseteq> set r \<union> set m \<union> set p \<union> set f"
      by simp
    moreover have "getSubstitution m p f (c # d # r) = CHR ''$'' # getSubstitution m p f r"
      using dollar by simp
    ultimately show ?thesis using dollar by auto
  next
    case matched
    with "1.IH"(2) have "set (getSubstitution m p f r) \<subseteq> set r \<union> set m \<union> set p \<union> set f"
      by simp
    moreover have "getSubstitution m p f (c # d # r) = m @ getSubstitution m p f r"
      using matched by simp
    ultimately show ?thesis by auto
  next
    case preceding
    with "1.IH"(3) have "set (getSubstitution m p f r) \<subseteq> set r \<union> set m \<union> set p \<union> set f"
      by simp
    moreover have "getSubstitution m p f (c # d # r) = p @ getSubstitution m p f r"
      using preceding by simp
    ultimately show ?thesis by auto
  next
    case following
    with "1.IH"(4) have "set (getSubstitution m p f r) \<subseteq> set r \<union> set m \<union> set p \<union> set f"
      by simp
    moreover have "getSubstitution m p f (c # d # r) = f @ getSubstitution m p f r"
      using following by simp
    ultimately show ?thesis by auto
  next
    case literal
    with "1.IH"(5) have "set (getSubstitution m p f (d # r)) \<subseteq> set (d # r) \<union> set m \<union> set p \<union> set f"
      by auto
    moreover have "getSubstitution m p f (c # d # r) = c # getSubstitution m p f (d # r)"
      using literal by auto
    ultimately show ?thesis by auto
  qed
qed simp_all

lemma js_replace_chars: "set (js_replace s t r) \<subseteq> set s \<union> set r"
proof (cases "indexOf s t")
  case None
  then show ?thesis by (simp add: js_replace_def)
next
  case (Some i)
  have "set (getSubstitution t (take i s) (drop (i + length t) s) r)
          \<subseteq> set r \<union> set t \<union> set (take i s) \<union> set (drop (i + length t) s)"
    by (rule getSubstitution_chars)
  moreover have "set t \<subseteq> set s" using Some by (rule indexOf_chars)
  moreover have "set (take i s) \<subseteq> set s" by (rule set_take_subset)
  moreover have "set (drop (i + length t) s) \<subseteq> set s" by (rule set_drop_subset)
  ultimately show ?thesis using Some by (auto simp: js_replace_def Let_def)
qed

lemma js_join_chars: "set (js_join sep xs) \<subseteq> set sep \<union> \<Union> (set ` set xs)"
  by (induction sep xs rule: js_join.induct) auto

lemma trimStart_chars: "set (trimStart s) \<subseteq> set s"
  by (auto simp: trimStart_def dest: set_dropWhileD)

lemma leadingWhitespace_chars: "set (leadingWhitespace s) \<subseteq> set s"
  by (auto simp: leadingWhitespace_def dest: set_takeWhileD)

lemma replacementLine_chars:
  "set (replacementLine ind ol j line) \<subseteq> set ind \<union> {CHR '' ''} \<union> set line"
  using trimStart_chars [of line]
  by (auto simp: replacementLine_def Let_def)

lemma replacementLines_chars:
  "l \<in> set (replacementLines ind ol nl) \<Longrightarrow>
   set l \<subseteq> set ind \<union> {CHR '' ''} \<union> \<Union> (set ` set nl)"
proof -
  assume "l \<in> set (replacementLines ind ol nl)"
  then obtain j line where "(j, line) \<in> set (enumerate 0 nl)" and l: "l = replacementLine ind ol j line"
    by (auto simp: replacementLines_def)
  then have "line \<in> set nl" by (auto simp: in_set_enumerate_eq)
  with replacementLine_chars [of ind ol j line] l show ?thesis by auto
qed

lemma findMatch_range:
  assumes "findMatch oldLines contentLines = Some i" and "oldLines \<noteq> []"
  shows "i < length contentLines"
proof -
  from assms(1) have "i \<in> set [0 ..< length contentLines + 1 - length oldLines]"
    unfolding findMatch_def by (auto simp: find_Some_iff)
  then have r: "i < length contentLines + 1 - length oldLines" by simp
  have "1 \<le> length oldLines" using assms(2) by (cases oldLines) simp_all
  with r show ?thesis by arith
qed

lemma js_split_union: "\<Union> (set ` set (js_split sep s)) \<subseteq> set s"
  using js_split_chars by blast

lemma lineWindow_chars:
  assumes "lineWindow buffer old new = Some c"
  shows "set c \<subseteq> set buffer \<union> set new \<union> {CHR 0x0A, CHR '' ''}"
proof -
  let ?ol = "js_split CHR 0x0A old"
  let ?cl = "js_split CHR 0x0A buffer"
  let ?nl = "js_split CHR 0x0A new"
  from assms obtain i where i: "findMatch ?ol ?cl = Some i"
    and c: "c = js_join [CHR 0x0A]
                  (take i ?cl @ replacementLines (leadingWhitespace (?cl ! i)) ?ol ?nl
                     @ drop (i + length ?ol) ?cl)"
    by (auto simp: lineWindow_def Let_def split: option.splits)
  from i have "i < length ?cl" by (rule findMatch_range) (rule js_split_nonempty)
  then have "?cl ! i \<in> set ?cl" by simp
  then have "set (?cl ! i) \<subseteq> set buffer" by (rule js_split_chars)
  with leadingWhitespace_chars [of "?cl ! i"]
  have ind: "set (leadingWhitespace (?cl ! i)) \<subseteq> set buffer" by blast
  have lines: "set l \<subseteq> set buffer \<union> set new \<union> {CHR 0x0A, CHR '' ''}"
    if "l \<in> set (take i ?cl @ replacementLines (leadingWhitespace (?cl ! i)) ?ol ?nl
                    @ drop (i + length ?ol) ?cl)" for l
  proof -
    from that consider "l \<in> set (take i ?cl)"
      | "l \<in> set (replacementLines (leadingWhitespace (?cl ! i)) ?ol ?nl)"
      | "l \<in> set (drop (i + length ?ol) ?cl)" by auto
    then show ?thesis
    proof cases
      case 1
      then have "l \<in> set ?cl" by (rule in_set_takeD)
      then show ?thesis using js_split_chars by blast
    next
      case 2
      from replacementLines_chars [OF 2] ind js_split_union [of "CHR 0x0A" new]
      show ?thesis by blast
    next
      case 3
      then have "l \<in> set ?cl" by (rule in_set_dropD)
      then show ?thesis using js_split_chars by blast
    qed
  qed
  have joined: "set c \<subseteq> set [CHR 0x0A] \<union> \<Union> (set ` set (take i ?cl
            @ replacementLines (leadingWhitespace (?cl ! i)) ?ol ?nl @ drop (i + length ?ol) ?cl))"
    unfolding c by (rule js_join_chars)
  show ?thesis
  proof
    fix x
    assume "x \<in> set c"
    with joined have "x = CHR 0x0A
        \<or> (\<exists>l \<in> set (take i ?cl @ replacementLines (leadingWhitespace (?cl ! i)) ?ol ?nl
                          @ drop (i + length ?ol) ?cl). x \<in> set l)"
      by auto
    then show "x \<in> set buffer \<union> set new \<union> {CHR 0x0A, CHR '' ''}"
    proof
      assume "x = CHR 0x0A"
      then show ?thesis by simp
    next
      assume "\<exists>l \<in> set (take i ?cl @ replacementLines (leadingWhitespace (?cl ! i)) ?ol ?nl
                          @ drop (i + length ?ol) ?cl). x \<in> set l"
      then obtain l where "l \<in> set (take i ?cl @ replacementLines (leadingWhitespace (?cl ! i)) ?ol ?nl
                          @ drop (i + length ?ol) ?cl)" and "x \<in> set l" by blast
      with lines [of l] show ?thesis by blast
    qed
  qed
qed

lemma applyEdit_chars:
  assumes "applyEdit buffer e = Inr c"
  shows "set c \<subseteq> set buffer \<union> set (normalizeLineEndings (newText e)) \<union> {CHR 0x0A, CHR '' ''}"
proof (cases "js_includes buffer (normalizeLineEndings (oldText e))")
  case True
  with assms have "c = js_replace buffer (normalizeLineEndings (oldText e)) (normalizeLineEndings (newText e))"
    by (simp add: applyEdit_def Let_def)
  with js_replace_chars show ?thesis by blast
next
  case False
  with assms have "lineWindow buffer (normalizeLineEndings (oldText e)) (normalizeLineEndings (newText e)) = Some c"
    by (simp add: applyEdit_def Let_def split: option.splits)
  then show ?thesis by (rule lineWindow_chars)
qed

lemma applyEdits_no_cr:
  assumes "applyEdits buffer edits = Inr c"
    and "CHR 0x0D \<notin> set buffer"
    and "list_all (\<lambda>e. crOnlyBeforeLf (newText e)) edits"
  shows "CHR 0x0D \<notin> set c"
  using assms
proof (induction edits arbitrary: buffer)
  case Nil
  then show ?case by simp
next
  case (Cons e es)
  from Cons.prems(1) obtain b where b: "applyEdit buffer e = Inr b" and rest: "applyEdits b es = Inr c"
    by (auto split: sum.splits)
  from Cons.prems(3) have "CHR 0x0D \<notin> set (normalizeLineEndings (newText e))"
    by (simp add: normalizeLineEndings_no_cr)
  with applyEdit_chars [OF b] Cons.prems(2) have "CHR 0x0D \<notin> set b" by auto
  with Cons.IH [OF rest] Cons.prems(3) show ?case by simp
qed

lemma normalizeLineEndings_id:
  "\<not> js_includes s [CHR 0x0D, CHR 0x0A] \<Longrightarrow> normalizeLineEndings s = s"
  by (induction s rule: normalizeLineEndings.induct) (auto simp: js_includes_Cons)

text \<open>
  Claim C10 as stated fails. The first line of \<open>/data/stray\<close> ends in CR CR LF. A
  successful \<open>edit_file\<close> that changes only the last line writes the first line back
  with CR LF: the pass over the content replaces the CR LF pair by LF and leaves the CR
  in front of it, so a CR LF line ending of the original file, in a region no edit
  touches, is not written back as a bare LF.
\<close>

theorem stray_cr_keeps_crlf_counterexample:
  "(let path = ''/data/stray'';
        original = ''x'' @ [CHR 0x0D, CHR 0x0D, CHR 0x0A] @ ''y'' @ [CHR 0x0D, CHR 0x0A] @ ''z'';
        written = ''x'' @ [CHR 0x0D, CHR 0x0A] @ ''y'' @ [CHR 0x0A] @ ''Z'';
        after = strayCrWorld\<lparr>nodes := [(path, File written), (''/data'', Dir)]\<rparr>
    in fs_readFile strayCrWorld path = Inr original
     \<and> edit_file samplePatch [''/data''] strayCrWorld path [\<lparr>oldText = ''z'', newText = ''Z''\<rparr>] False
         = (Inr (formatDiff (createUnifiedDiff samplePatch (normalizeLineEndings original) written path)),
            after)
     \<and> fs_readFile after path = Inr written
     \<and> js_includes written [CHR 0x0D, CHR 0x0A])"
  by code_simp

text \<open>
  Claim C10, amended. When \<open>edit_file\<close> with \<open>dryRun = false\<close> succeeds, the file at the
  validated path afterwards holds the result of applying the edits to the normalized
  original content, where normalizing replaces every CR LF pair, from the left, by LF and
  changes nothing else. When every CR of the original file is followed at once by LF,
  and the same holds of every edit's new text, the content written has no CR at all:
  every line ending of the file is written back as a bare LF, in the regions no edit
  touches too, however little the batch changes.
\<close>

theorem edit_file_writes_normalized_content:
  assumes "edit_file createTwoFilesPatch allowedDirectories w path edits False
             = (Inr formattedDiff, w')"
  shows "\<exists>validPath raw modifiedContent.
           validatePath allowedDirectories w path = Inr validPath
         \<and> fs_readFile w validPath = Inr raw
         \<and> applyEdits (normalizeLineEndings raw) edits = Inr modifiedContent
         \<and> fs_readFile w' validPath = Inr modifiedContent
         \<and> (\<forall>a b. raw = a @ CHR 0x0D # CHR 0x0A # b \<longrightarrow>
               normalizeLineEndings raw = normalizeLineEndings a @ CHR 0x0A # normalizeLineEndings b)
         \<and> (\<not> js_includes raw [CHR 0x0D, CHR 0x0A] \<longrightarrow> normalizeLineEndings raw = raw)
         \<and> (crOnlyBeforeLf raw \<and> list_all (\<lambda>e. crOnlyBeforeLf (newText e)) edits \<longrightarrow>
               CHR 0x0D \<notin> set modifiedContent)"
proof -
  from edit_file_success_written [OF assms]
  obtain validPath raw modifiedContent where
      v: "validatePath allowedDirectories w path = Inr validPath"
    and r: "fs_readFile w validPath = Inr raw"
    and m: "applyEdits (normalizeLineEndings raw) edits = Inr modifiedContent"
    and reread: "fs_readFile w' validPath = Inr modifiedContent"
    by blast
  have pair: "\<forall>a b. raw = a @ CHR 0x0D # CHR 0x0A # b \<longrightarrow>
               normalizeLineEndings raw = normalizeLineEndings a @ CHR 0x0A # normalizeLineEndings b"
    by (simp add: normalizeLineEndings_pair)
  have same: "\<not> js_includes raw [CHR 0x0D, CHR 0x0A] \<longrightarrow> normalizeLineEndings raw = raw"
    by (simp add: normalizeLineEndings_id)
  have clean: "CHR 0x0D \<notin> set modifiedContent"
    if "crOnlyBeforeLf raw" "list_all (\<lambda>e. crOnlyBeforeLf (newText e)) edits"
    using m normalizeLineEndings_no_cr [OF that(1)] that(2) by (rule applyEdits_no_cr)
  from v r m reread pair same clean show ?thesis by blast
qed

theorem edit_file_writes_normalized_content_witness:
  "(let path = ''/data/crlf'';
        edits = [\<lparr>oldText = ''b'', newText = ''B''\<rparr>];
        original = ''a'' @ [CHR 0x0D, CHR 0x0A] @ ''b'' @ [CHR 0x0D, CHR 0x0A] @ ''c'' @ [CHR 0x0D, CHR 0x0A];
        after = editWorld\<lparr>nodes := [(path, File ''a\<newline>B\<newline>c\<newline>''), (''/data'', Dir),
                                     (''/data/f'', File ''abc''),
                                     (''/data/md'', File (''x'' @ replicate 4 CHR 0x60 @ ''y''))]\<rparr>
    in fs_readFile editWorld path = Inr original
     \<and> crOnlyBeforeLf original
     \<and> edit_file samplePatch [''/data''] editWorld path edits False
         = (Inr (formatDiff (samplePatch path path ''a\<newline>b\<newline>c\<newline>'' ''a\<newline>B\<newline>c\<newline>''
                               ''original'' ''modified'')), after)
     \<and> (\<exists>written. fs_readFile after path = Inr written
            \<and> written = ''a\<newline>B\<newline>c\<newline>''
            \<and> CHR 0x0D \<notin> set written))"
proof -
  let ?path = "''/data/crlf''"
  let ?edits = "[\<lparr>oldText = ''b'', newText = ''B''\<rparr>]"
  let ?original = "''a'' @ [CHR 0x0D, CHR 0x0A] @ ''b'' @ [CHR 0x0D, CHR 0x0A] @ ''c'' @ [CHR 0x0D, CHR 0x0A]"
  let ?after = "editWorld\<lparr>nodes := [(?path, File ''a\<newline>B\<newline>c\<newline>''), (''/data'', Dir),
                                     (''/data/f'', File ''abc''),
                                     (''/data/md'', File (''x'' @ replicate 4 CHR 0x60 @ ''y''))]\<rparr>"
  have run: "edit_file samplePatch [''/data''] editWorld ?path ?edits False
          = (Inr (formatDiff (samplePatch ?path ?path ''a\<newline>b\<newline>c\<newline>''
                                ''a\<newline>B\<newline>c\<newline>'' ''original'' ''modified'')), ?after)"
    by code_simp
  from edit_file_writes_normalized_content [OF run]
  obtain validPath raw modifiedContent where
      v: "validatePath [''/data''] editWorld ?path = Inr validPath"
    and r: "fs_readFile editWorld validPath = Inr raw"
    and m: "applyEdits (normalizeLineEndings raw) ?edits = Inr modifiedContent"
    and reread: "fs_readFile ?after validPath = Inr modifiedContent"
    and clean: "crOnlyBeforeLf raw \<and> list_all (\<lambda>e. crOnlyBeforeLf (newText e)) ?edits \<longrightarrow>
                  CHR 0x0D \<notin> set modifiedContent"
    by blast
  have "validatePath [''/data''] editWorld ?path = Inr ?path"
    by code_simp
  with v have v': "validPath = ?path" by simp
  have original: "fs_readFile editWorld ?path = Inr ?original"
    by code_simp
  with r v' have r': "raw = ?original" by simp
  have lf: "crOnlyBeforeLf ?original"
    by code_simp
  have new: "list_all (\<lambda>e. crOnlyBeforeLf (newText e)) ?edits"
    by code_simp
  have "applyEdits (normalizeLineEndings ?original) ?edits = Inr ''a\<newline>B\<newline>c\<newline>''"
    by code_simp
  with m r' have m': "modifiedContent = ''a\<newline>B\<newline>c\<newline>''" by simp
  from clean lf new have "CHR 0x0D \<notin> set modifiedContent"
    unfolding r' by blast
  with reread have "\<exists>written. fs_readFile ?after ?path = Inr written
            \<and> written = ''a\<newline>B\<newline>c\<newline>''
            \<and> CHR 0x0D \<notin> set written"
    unfolding v' m' by blast
  with original lf run show ?thesis
    unfolding Let_def by blast
qed

end
